theory Spec2Isabelle
  imports Main "HOL-Library.Multiset"
begin

section \<open>Data model of the game session (app/controllers/game.js)\<close>

text \<open>
  The session object \<^verbatim>\<open>Game\<close> of \<^verbatim>\<open>app/controllers/game.js\<close> is embedded as a record
  that every operation takes and returns. Player objects are shared between the roster,
  the judge reference, the score ledger and the \<^verbatim>\<open>owner\<close> field of cards, and they stay
  alive after they left the roster, so players live in an object store indexed by the
  object's identity and every reference is such an identity.
\<close>

type_synonym pid = nat

text \<open>The constants of \<^verbatim>\<open>STATES\<close>.\<close>

datatype gstate = STOPPED | STARTED | PLAYABLE | PLAYED | ROUND_END | WAITING | PAUSED

text \<open>
  A JavaScript number field that the code increments without having initialised it:
  \<^verbatim>\<open>undefined++\<close> stores \<^verbatim>\<open>NaN\<close>, \<^verbatim>\<open>NaN++\<close> stays \<^verbatim>\<open>NaN\<close>, and every comparison with
  \<^verbatim>\<open>undefined\<close> or \<^verbatim>\<open>NaN\<close> is false.
\<close>

datatype jsnum = Undefined | NaN | Num int

fun js_incr :: "jsnum \<Rightarrow> jsnum" where
  "js_incr (Num n) = Num (n + 1)"
| "js_incr NaN = NaN"
| "js_incr Undefined = NaN"

fun js_ge :: "jsnum \<Rightarrow> int \<Rightarrow> bool" where
  "js_ge (Num n) k = (k \<le> n)"
| "js_ge NaN k = False"
| "js_ge Undefined k = False"

datatype error = InvalidIndex | EmptyPool | TypeError

text \<open>
  Modelled from the spec: \<^verbatim>\<open>app/models/card.js\<close> is not among the sources. A card is a
  content record (display text, pick-count, draw-count) with a mutable back-reference to
  its current holder, absent (\<^verbatim>\<open>null\<close>) on a deck, a discard pile or after cleanup.
\<close>

record card =
  cvalue :: string
  pick :: int
  draw :: int
  owner :: "pid option"

text \<open>
  The \<^verbatim>\<open>Player\<close> constructor of \<^verbatim>\<open>app/models/player.js\<close>; the object's \<^verbatim>\<open>id\<close> is its
  index in the store. \<^verbatim>\<open>inactiveRounds\<close> is not set by the constructor.
\<close>

record player =
  nick :: string
  user :: string
  hostname :: string
  cards :: "card list"
  hasPlayed :: bool
  hasDiscarded :: bool
  isCzar :: bool
  points :: int
  idled :: bool
  inactiveRounds :: jsnum

definition Player :: "string \<Rightarrow> string \<Rightarrow> string \<Rightarrow> player" where
  "Player n u h = \<lparr> nick = n, user = u, hostname = h, cards = [], hasPlayed = False,
     hasDiscarded = False, isCzar = False, points = 0, idled = True,
     inactiveRounds = Undefined \<rparr>"

text \<open>An entry of the score ledger \<^verbatim>\<open>self.points\<close>.\<close>

record entry =
  e_nick :: string
  e_hostname :: string
  e_player :: pid
  e_points :: int

text \<open>
  What the session sends through \<^verbatim>\<open>say\<close> (to the channel) and \<^verbatim>\<open>pm\<close> (to one nick):
  one constructor per message of the source, carrying the data the text is built from.
\<close>

datatype msg =
    SayPaused
  | SayAlreadyPaused
  | SayCannotPause
  | SayNowPaused
  | SayNotPaused
  | SayResumed
  | SayCzarQuitDuringPause
  | SayCantPlay string
  | SayCzarDoesNotPlay string
  | SayAlreadyPlayed string
  | SayMustPick string int
  | PmInvalidIndex string
  | PmYouPlayed string card "card list"
  | SayCantDiscard string
  | SayCzarCannotDiscard string
  | SayDiscardOnce string
  | SayNeedPoint string
  | PmDiscarded string int
  | PmCards string "card list"
  | SayInvalidWinner
  | SayWinner string card "card list" int
  | SayStoppedBy string
  | SayStopped
  | SayPoints "(string \<times> int) list"
  | SayPointLimit string int
  | SayNotEnoughPlayers
  | SayRound int string
  | SayCard card
  | PmCard "string list" card
  | SayNoOnePlayed
  | SayOnlyOnePlayed
  | SayEntries "card list list"
  | SayCzarFled
  | SaySelectWinner string
  | SayTimeUp
  | SayTimeUpWinner
  | SayTimeLeft int
  | SayCzarTimeLeft string int
  | SayStatus
  | SayRemovedInactive "string list"
  | SayBanned string
  | SayJoined string
  | SayLeft string

text \<open>
  The session. \<^verbatim>\<open>objs\<close> is the store of player objects, \<^verbatim>\<open>players\<close> the roster,
  \<^verbatim>\<open>ledger\<close> the array \<^verbatim>\<open>self.points\<close>; the four timers are armed or not; \<^verbatim>\<open>clock\<close>
  is what \<^verbatim>\<open>new Date().getTime()\<close> reads while an event is handled, \<^verbatim>\<open>rnd\<close> the
  values the random source will return, and \<^verbatim>\<open>outbox\<close> the messages sent so far.
  \<^verbatim>\<open>roundMinutes\<close> and \<^verbatim>\<open>idleLimit\<close> are the two entries of \<^verbatim>\<open>config.gameOptions\<close>
  that the operations below read.
\<close>

record game =
  round :: int
  players :: "pid list"
  objs :: "pid \<Rightarrow> player"
  state :: gstate
  pauseState_state :: gstate
  pauseState_elapsed :: int
  ledger :: "entry list"
  idleCounts :: "string \<Rightarrow> jsnum"
  pointLimit :: int
  decks_question :: "card list"
  decks_answer :: "card list"
  discards_question :: "card list"
  discards_answer :: "card list"
  table_question :: "card option"
  table_answer :: "card list list"
  czar :: "pid option"
  roundStarted :: int
  startTimeout :: bool
  stopTimeout :: bool
  turnTimer :: bool
  winnerTimer :: bool
  roundMinutes :: int
  idleLimit :: int
  clock :: int
  rnd :: "nat list"
  outbox :: "msg list"

text \<open>
  An operation returns normally with the new session, or an exception leaves it: the
  session is then as it was when the exception was thrown (nothing is rolled back).
  \<^verbatim>\<open>OutOfFuel\<close> is the result of a call sequence nested deeper than the budget given
  to the mutually recursive operations of section 4.
\<close>

datatype outcome = Ok game | Throw error game | OutOfFuel

fun andThen :: "outcome \<Rightarrow> (game \<Rightarrow> outcome) \<Rightarrow> outcome" where
  "andThen (Ok g) f = f g"
| "andThen (Throw e g) f = Throw e g"
| "andThen OutOfFuel f = OutOfFuel"

definition say :: "msg \<Rightarrow> game \<Rightarrow> game" where
  "say m g = g\<lparr>outbox := outbox g @ [m]\<rparr>"

definition upd :: "pid \<Rightarrow> (player \<Rightarrow> player) \<Rightarrow> game \<Rightarrow> game" where
  "upd p f g = g\<lparr>objs := (objs g)(p := f (objs g p))\<rparr>"

section \<open>Card collections\<close>

text \<open>
  Modelled from the spec: \<^verbatim>\<open>app/controllers/cards.js\<close> is not among the sources. A
  collection is an ordered sequence of cards. \<^verbatim>\<open>draw\<close> (the source's \<^verbatim>\<open>pickCards()\<close>
  without argument) removes and returns the first card and fails with \<^verbatim>\<open>EmptyPool\<close> when
  none remain. \<^verbatim>\<open>pickCards\<close> with a list of indices de-duplicates them, validates each
  against \<^verbatim>\<open>[0, size)\<close> and fails with \<^verbatim>\<open>InvalidIndex\<close> otherwise; it is atomic: either
  all requested cards are removed and returned as a group, in the order requested, or
  none is. \<^verbatim>\<open>shuffle\<close> randomises the order.
\<close>

text \<open>\<^verbatim>\<open>_.uniq\<close>: only the first occurrence of each value is kept.\<close>

fun uniq :: "'a list \<Rightarrow> 'a list" where
  "uniq [] = []"
| "uniq (x # xs) = x # uniq (filter (\<lambda>y. y \<noteq> x) xs)"

definition draw_card :: "card list \<Rightarrow> error + card \<times> card list" where
  "draw_card cs = (case cs of [] \<Rightarrow> Inl EmptyPool | c # rest \<Rightarrow> Inr (c, rest))"

definition validIndex :: "card list \<Rightarrow> int \<Rightarrow> bool" where
  "validIndex cs i = (0 \<le> i \<and> i < int (length cs))"

definition pickCards :: "int list \<Rightarrow> card list \<Rightarrow> error + card list \<times> card list" where
  "pickCards idxs cs =
     (let is = uniq idxs in
      if list_all (validIndex cs) is
      then Inr (map (\<lambda>i. cs ! nat i) is,
                map snd (filter (\<lambda>(k, c). int k \<notin> set is) (enumerate 0 cs)))
      else Inl InvalidIndex)"

text \<open>
  The random order is decided by the values the random source returns: each card is
  put at a position drawn for it among the cards placed before it, so every order can
  come out and the result always holds the same cards.
\<close>

fun shuffleWith :: "nat list \<Rightarrow> 'a list \<Rightarrow> 'a list" where
  "shuffleWith rs [] = []"
| "shuffleWith [] (x # xs) = x # xs"
| "shuffleWith (r # rs) (x # xs) =
     (let ys = shuffleWith rs xs; k = r mod (length ys + 1)
      in take k ys @ x # drop k ys)"

section \<open>Decks\<close>

text \<open>
  \<^verbatim>\<open>checkDecks\<close>: a deck that ran empty is refilled with the cards of its discard pile
  (\<^verbatim>\<open>deck.reset(discard.reset())\<close>: the discard pile keeps nothing) and shuffled. The
  answer deck is checked first.
\<close>

definition checkDecks :: "game \<Rightarrow> game" where
  "checkDecks g =
     (let g1 = (if length (decks_answer g) = 0
                then g\<lparr>decks_answer := shuffleWith (rnd g) (discards_answer g),
                       discards_answer := [],
                       rnd := drop (length (discards_answer g)) (rnd g)\<rparr>
                else g)
      in if length (decks_question g1) = 0
         then g1\<lparr>decks_question := shuffleWith (rnd g1) (discards_question g1),
                 discards_question := [],
                 rnd := drop (length (discards_question g1)) (rnd g1)\<rparr>
         else g1)"


text \<open>
  \<^verbatim>\<open>Math.round(Math.random() * (n - 1))\<close>: for \<^verbatim>\<open>n \<ge> 1\<close> any index from \<^verbatim>\<open>0\<close> to
  \<^verbatim>\<open>n - 1\<close>; for \<^verbatim>\<open>n = 0\<close> the product lies between \<^verbatim>\<open>-1\<close> and \<^verbatim>\<open>0\<close> and rounds to
  \<^verbatim>\<open>-1\<close> or \<^verbatim>\<open>0\<close>. Which one is decided by the next value of the random source.
\<close>

definition randomIndex :: "nat \<Rightarrow> game \<Rightarrow> int \<times> game" where
  "randomIndex n g =
     (let r = (case rnd g of [] \<Rightarrow> 0 | x # _ \<Rightarrow> x)
      in (if n = 0 then - int (r mod 2) else int (r mod n), g\<lparr>rnd := tl (rnd g)\<rparr>))"

text \<open>
  Modelled from the spec: \<^verbatim>\<open>addToDiscard\<close> appends a card to a discard pile, clearing
  its holder.
\<close>

definition addToDiscard :: "card list \<Rightarrow> card list \<Rightarrow> card list" where
  "addToDiscard cs pile = pile @ map (\<lambda>c. c\<lparr>owner := None\<rparr>) cs"

text \<open>
  The loop of \<^verbatim>\<open>deal\<close>: \<^verbatim>\<open>k\<close> times, check the decks, draw the first answer card, add it
  to the hand of \<^verbatim>\<open>p\<close> and make \<^verbatim>\<open>p\<close> its owner.
\<close>

fun dealCards :: "nat \<Rightarrow> pid \<Rightarrow> game \<Rightarrow> outcome" where
  "dealCards 0 p g = Ok g"
| "dealCards (Suc k) p g =
     (let g1 = checkDecks g in
      case draw_card (decks_answer g1) of
        Inl e \<Rightarrow> Throw e g1
      | Inr (c, rest) \<Rightarrow>
          dealCards k p
            (upd p (\<lambda>pl. pl\<lparr>cards := cards pl @ [c\<lparr>owner := Some p\<rparr>]\<rparr>)
               (g1\<lparr>decks_answer := rest\<rparr>)))"

text \<open>\<^verbatim>\<open>deal()\<close> without arguments: every roster player is dealt up to ten cards.\<close>

fun deal_each :: "pid list \<Rightarrow> game \<Rightarrow> outcome" where
  "deal_each [] g = Ok g"
| "deal_each (p # ps) g =
     andThen (dealCards (nat (10 - int (length (cards (objs g p))))) p g) (deal_each ps)"

definition deal :: "game \<Rightarrow> outcome" where
  "deal g = deal_each (players g) g"

text \<open>\<^verbatim>\<open>deal(player, num)\<close>: the player is dealt up to \<^verbatim>\<open>num\<close> cards.\<close>

definition deal_player :: "pid \<Rightarrow> int \<Rightarrow> game \<Rightarrow> outcome" where
  "deal_player p num g = dealCards (nat (num - int (length (cards (objs g p))))) p g"

definition showCards :: "pid \<Rightarrow> game \<Rightarrow> game" where
  "showCards p g = say (PmCards (nick (objs g p)) (cards (objs g p))) g"

definition showPoints :: "game \<Rightarrow> game" where
  "showPoints g =
     say (SayPoints (map (\<lambda>e. (nick (objs g (e_player e)), points (objs g (e_player e))))
            (sort_key (\<lambda>e. - points (objs g (e_player e))) (ledger g)))) g"

text \<open>
  \<^verbatim>\<open>stop\<close>: the session becomes \<^verbatim>\<open>Stopped\<close>, every timer is cleared and the properties
  \<^verbatim>\<open>players\<close>, \<^verbatim>\<open>round\<close>, \<^verbatim>\<open>decks\<close>, \<^verbatim>\<open>discards\<close> and \<^verbatim>\<open>table\<close> are deleted, which the
  record shows as empty. A session in state \<^verbatim>\<open>STOPPED\<close> is torn down: the operations
  below are those of a session that is not.
\<close>

definition stop :: "pid option \<Rightarrow> bool \<Rightarrow> game \<Rightarrow> game" where
  "stop player pointLimitReached g0 =
     (let g = g0\<lparr>state := STOPPED\<rparr>;
          g = (case player of
                 Some p \<Rightarrow> say (SayStoppedBy (nick (objs g p))) g
               | None \<Rightarrow> if \<not> pointLimitReached then say SayStopped g else g);
          g = (if round g > 1 then showPoints g else g);
          g = g\<lparr>startTimeout := False, stopTimeout := False, turnTimer := False,
                winnerTimer := False\<rparr>
      in g\<lparr>players := [], round := 0, decks_question := [], decks_answer := [],
            discards_question := [], discards_answer := [], table_question := None,
            table_answer := []\<rparr>)"

text \<open>\<^verbatim>\<open>pause\<close> reads the clock and remembers the state and the time elapsed.\<close>

definition pause :: "game \<Rightarrow> game" where
  "pause g =
     (if state g = PAUSED then say SayAlreadyPaused g
      else if state g \<noteq> PLAYABLE \<and> state g \<noteq> PLAYED then say SayCannotPause g
      else (say SayNowPaused
              (g\<lparr>pauseState_state := state g,
                 pauseState_elapsed := clock g - roundStarted g,
                 state := PAUSED\<rparr>))
           \<lparr>turnTimer := False, winnerTimer := False\<rparr>)"

text \<open>\<^verbatim>\<open>Array.prototype.indexOf\<close>: the first position of the value, or \<^verbatim>\<open>-1\<close>.\<close>

fun indexOf :: "'a list \<Rightarrow> 'a \<Rightarrow> int" where
  "indexOf [] x = -1"
| "indexOf (y # ys) x = (if y = x then 0 else (let i = indexOf ys x in if i < 0 then -1 else i + 1))"

text \<open>Reading \<^verbatim>\<open>xs[i]\<close>: \<^verbatim>\<open>undefined\<close> outside the array.\<close>

definition at :: "'a list \<Rightarrow> int \<Rightarrow> 'a option" where
  "at xs i = (if 0 \<le> i \<and> i < int (length xs) then Some (xs ! nat i) else None)"

text \<open>
  The first argument of \<^verbatim>\<open>selectWinner\<close>. The commands of \<^verbatim>\<open>games.js\<close> pass \<^verbatim>\<open>cmdArgs[0]\<close>,
  which the bot cuts out of the line with \<^verbatim>\<open>/(\w+)\s?/gi\<close>: a word of letters, digits and
  underscores as the user typed it, or \<^verbatim>\<open>undefined\<close> for a command without argument. The
  calls from within the session pass a number.
\<close>

datatype jskey = NoKey | NumKey int | WordKey string

text \<open>
  Reading \<^verbatim>\<open>xs[key]\<close> with such a key. The key is used as a property name. A number, or
  a word that is the decimal numeral of one (digits only, no leading zero), reads the
  element at that position, \<^verbatim>\<open>undefined\<close> outside the array. A word that names a
  property every array has or inherits reads that property: a number (\<^verbatim>\<open>length\<close>), a
  function or an object, never an element. Every other word, and \<^verbatim>\<open>undefined\<close>, reads
  \<^verbatim>\<open>undefined\<close>. The names are those of ECMAScript 5.1 (\<^verbatim>\<open>length\<close>, the members of
  \<^verbatim>\<open>Array.prototype\<close> and \<^verbatim>\<open>Object.prototype\<close>) and the accessors that the runtime of
  Node.js adds to every object.
\<close>

datatype 'a jsprop = Absent | Element 'a | Inherited

definition isDigit :: "char \<Rightarrow> bool" where
  "isDigit c = (48 \<le> (of_char c :: nat) \<and> (of_char c :: nat) \<le> 57)"

definition wordIndex :: "string \<Rightarrow> nat option" where
  "wordIndex s =
     (if s \<noteq> [] \<and> list_all isDigit s \<and> (length s = 1 \<or> hd s \<noteq> CHR ''0'')
      then Some (foldl (\<lambda>n c. 10 * n + (of_char c - 48)) 0 s) else None)"

definition arrayProperties :: "string list" where
  "arrayProperties =
     [''length'', ''constructor'', ''toString'', ''toLocaleString'', ''concat'', ''join'',
      ''pop'', ''push'', ''reverse'', ''shift'', ''slice'', ''sort'', ''splice'', ''unshift'',
      ''indexOf'', ''lastIndexOf'', ''every'', ''some'', ''forEach'', ''map'', ''filter'',
      ''reduce'', ''reduceRight'', ''valueOf'', ''hasOwnProperty'', ''isPrototypeOf'',
      ''propertyIsEnumerable'', ''__proto__'', ''__defineGetter__'', ''__defineSetter__'',
      ''__lookupGetter__'', ''__lookupSetter__'']"

definition arrayGet :: "'a list \<Rightarrow> jskey \<Rightarrow> 'a jsprop" where
  "arrayGet xs key =
     (case key of
        NoKey \<Rightarrow> Absent
      | NumKey i \<Rightarrow> (case at xs i of Some x \<Rightarrow> Element x | None \<Rightarrow> Absent)
      | WordKey s \<Rightarrow>
          (case wordIndex s of
             Some k \<Rightarrow> (case at xs (int k) of Some x \<Rightarrow> Element x | None \<Rightarrow> Absent)
           | None \<Rightarrow> if s \<in> set arrayProperties then Inherited else Absent))"

text \<open>
  \<^verbatim>\<open>setCzar\<close>: \<^verbatim>\<open>self.players[self.players.indexOf(self.czar) + 1] || self.players[0]\<close>.
  With an empty roster the new judge is \<^verbatim>\<open>undefined\<close> and reading its nick throws.
\<close>

definition setCzar :: "game \<Rightarrow> outcome" where
  "setCzar g =
     (let i = (case czar g of None \<Rightarrow> -1 | Some c \<Rightarrow> indexOf (players g) c);
          new = (case at (players g) (i + 1) of
                   Some p \<Rightarrow> Some p
                 | None \<Rightarrow> at (players g) 0)
      in case new of
           None \<Rightarrow> Throw TypeError (g\<lparr>czar := None\<rparr>)
         | Some p \<Rightarrow> Ok (upd p (\<lambda>pl. pl\<lparr>isCzar := True\<rparr>) (g\<lparr>czar := Some p\<rparr>)))"

text \<open>The extra cards of a prompt with a draw-count: each player of the list draws \<^verbatim>\<open>k\<close>.\<close>

fun draw_each :: "pid list \<Rightarrow> nat \<Rightarrow> game \<Rightarrow> outcome" where
  "draw_each [] k g = Ok g"
| "draw_each (p # ps) k g = andThen (dealCards k p g) (draw_each ps k)"

definition playQuestion :: "game \<Rightarrow> outcome" where
  "playQuestion g0 =
     (let g = checkDecks g0 in
      case draw_card (decks_question g) of
        Inl e \<Rightarrow> Throw e g
      | Inr (c, rest) \<Rightarrow>
          (let g = say (SayCard c) (g\<lparr>decks_question := rest\<rparr>);
               g = g\<lparr>table_question := Some c\<rparr>;
               others = filter (\<lambda>p. \<not> isCzar (objs g p)) (players g);
               g = say (PmCard (map (\<lambda>p. nick (objs g p)) others) c) g
           in andThen (if draw c > 0 then draw_each others (nat (draw c)) g else Ok g)
                (\<lambda>g. Ok (g\<lparr>turnTimer := True, roundStarted := clock g\<rparr>))))"

text \<open>\<^verbatim>\<open>nextRound\<close>.\<close>

definition nextRound :: "game \<Rightarrow> outcome" where
  "nextRound g0 =
     (let g = g0\<lparr>stopTimeout := False\<rparr> in
      case (if pointLimit g > 0
            then find (\<lambda>p. points (objs g p) = pointLimit g) (players g) else None) of
        Some w \<Rightarrow> Ok (stop None True (say (SayPointLimit (nick (objs g w)) (pointLimit g)) g))
      | None \<Rightarrow>
          if length (players g) < 3
          then Ok ((say SayNotEnoughPlayers g)\<lparr>state := WAITING, stopTimeout := True\<rparr>)
          else
            andThen (setCzar (g\<lparr>round := round g + 1\<rparr>)) (\<lambda>g.
            andThen (deal g) (\<lambda>g.
            andThen (playQuestion
                       (say (SayRound (round g)
                               (case czar g of Some c \<Rightarrow> nick (objs g c) | None \<Rightarrow> [])) g)) (\<lambda>g.
            Ok ((fold showCards (filter (\<lambda>p. \<not> isCzar (objs g p)) (players g)) g)
                  \<lparr>state := PLAYABLE\<rparr>)))))"

text \<open>\<^verbatim>\<open>getNotPlayed\<close>, \<^verbatim>\<open>checkAllPlayed\<close>, \<^verbatim>\<open>markInactivePlayers\<close>.\<close>

definition getNotPlayed :: "game \<Rightarrow> pid list" where
  "getNotPlayed g =
     filter (\<lambda>p. \<not> hasPlayed (objs g p) \<and> \<not> isCzar (objs g p))
       (filter (\<lambda>p. length (cards (objs g p)) > 0) (players g))"

definition checkAllPlayed :: "game \<Rightarrow> bool" where
  "checkAllPlayed g = (length (getNotPlayed g) = 0)"

definition markInactivePlayers :: "game \<Rightarrow> game" where
  "markInactivePlayers g =
     fold (\<lambda>p. upd p (\<lambda>pl. pl\<lparr>inactiveRounds := js_incr (inactiveRounds pl)\<rparr>))
       (getNotPlayed g) g"

section \<open>The operations that call each other\<close>

text \<open>
  \<^verbatim>\<open>selectWinner\<close> calls \<^verbatim>\<open>clean\<close>, \<^verbatim>\<open>clean\<close> calls \<^verbatim>\<open>removePlayer\<close>, \<^verbatim>\<open>removePlayer\<close>
  calls \<^verbatim>\<open>showEntries\<close> and \<^verbatim>\<open>selectWinner\<close>, and \<^verbatim>\<open>showEntries\<close> calls \<^verbatim>\<open>clean\<close> and
  \<^verbatim>\<open>selectWinner\<close>. Each body is written once, with the calls to the other three going
  through the parameter \<^verbatim>\<open>call\<close>; \<^verbatim>\<open>run\<close> closes the recursion with a budget for the
  nesting depth of these calls.
\<close>

datatype req =
    ReqSelectWinner jskey "pid option"
  | ReqClean
  | ReqRemovePlayer pid bool
  | ReqShowEntries

text \<open>
  \<^verbatim>\<open>selectWinner(index, player)\<close>; \<^verbatim>\<open>player\<close> is \<^verbatim>\<open>None\<close> for the internal calls, which
  pass no second argument. The winner timer is cleared before any check. A player who is
  not the judge is answered with \<^verbatim>\<open>client.say(text)\<close>: the client's \<^verbatim>\<open>say\<close> takes a target
  and a text, as \<^verbatim>\<open>self.say\<close> and \<^verbatim>\<open>self.pm\<close> call it, so here the text stands for the target,
  there is no text, and nothing is sent. The test on the winner is \<^verbatim>\<open>typeof winner ===
  'undefined'\<close>, so an inherited property passes it: the state becomes \<^verbatim>\<open>RoundEnd\<close> and
  reading \<^verbatim>\<open>winner.cards[0]\<close> throws. Reading the owner of the first card of an empty group,
  the points of a \<^verbatim>\<open>null\<close> owner, the ledger entry of an owner that no entry references,
  or the text of a \<^verbatim>\<open>null\<close> prompt throws as well.
\<close>

definition selectWinner_body ::
  "(req \<Rightarrow> game \<Rightarrow> outcome) \<Rightarrow> jskey \<Rightarrow> pid option \<Rightarrow> game \<Rightarrow> outcome" where
  "selectWinner_body call index player g0 =
     (if state g0 = PAUSED then Ok (say SayPaused g0)
      else
        (let g = g0\<lparr>winnerTimer := False\<rparr>;
             winner = arrayGet (table_answer g) index
         in if state g = PLAYED then
              (if player \<noteq> None \<and> player \<noteq> czar g
               then Ok g
               else
                 (case winner of
                    Absent \<Rightarrow> Ok (say SayInvalidWinner g)
                  | Inherited \<Rightarrow> Throw TypeError (g\<lparr>state := ROUND_END\<rparr>)
                  | Element grp \<Rightarrow>
                      (let g = g\<lparr>state := ROUND_END\<rparr> in
                       case grp of
                         [] \<Rightarrow> Throw TypeError g
                       | c # _ \<Rightarrow>
                           (case owner c of
                              None \<Rightarrow> Throw TypeError g
                            | Some w \<Rightarrow>
                                (let g = upd w (\<lambda>pl. pl\<lparr>points := points pl + 1\<rparr>) g in
                                 case find (\<lambda>k. e_player (ledger g ! k) = w) [0..<length (ledger g)] of
                                   None \<Rightarrow> Throw TypeError g
                                 | Some k \<Rightarrow>
                                     (let g = g\<lparr>ledger := (ledger g)
                                                  [k := (ledger g ! k)\<lparr>e_points := points (objs g w)\<rparr>]\<rparr>
                                      in case table_question g of
                                           None \<Rightarrow> Throw TypeError g
                                         | Some q \<Rightarrow>
                                             andThen
                                               (call ReqClean
                                                  (say (SayWinner (nick (objs g w)) q grp
                                                          (points (objs g w))) g))
                                               nextRound))))))
            else Ok g))"

text \<open>
  The loop of \<^verbatim>\<open>clean\<close> over the roster as it was when the loop started: the flags of
  each player are reset, and a player with an inactive round is removed silently, noted
  in \<^verbatim>\<open>removedNicks\<close>, and the idle count stored under the nick is incremented.
\<close>

fun cleanPlayers ::
  "(req \<Rightarrow> game \<Rightarrow> outcome) \<Rightarrow> pid list \<Rightarrow> string list \<Rightarrow> game \<Rightarrow> string list \<times> outcome" where
  "cleanPlayers call [] removedNicks g = (removedNicks, Ok g)"
| "cleanPlayers call (p # ps) removedNicks g0 =
     (let g = upd p (\<lambda>pl. pl\<lparr>hasPlayed := False, hasDiscarded := False, isCzar := False\<rparr>) g0 in
      if js_ge (inactiveRounds (objs g p)) 1
      then (case call (ReqRemovePlayer p True) g of
              Ok g \<Rightarrow>
                cleanPlayers call ps (removedNicks @ [nick (objs g p)])
                  (g\<lparr>idleCounts := (idleCounts g)
                       (nick (objs g p) := js_incr (idleCounts g (nick (objs g p))))\<rparr>)
            | Throw e g \<Rightarrow> (removedNicks, Throw e g)
            | OutOfFuel \<Rightarrow> (removedNicks, OutOfFuel))
      else cleanPlayers call ps removedNicks g)"

text \<open>
  \<^verbatim>\<open>clean\<close>. The groups on the table are emptied card by card into the answer discard
  pile. A \<^verbatim>\<open>null\<close> prompt would be pushed onto the question discard pile as it is; the
  piles of the record hold cards only and the pile is then left as it was.
\<close>

definition clean_body :: "(req \<Rightarrow> game \<Rightarrow> outcome) \<Rightarrow> game \<Rightarrow> outcome" where
  "clean_body call g0 =
     (let g = g0\<lparr>discards_question :=
                   (case table_question g0 of
                      None \<Rightarrow> discards_question g0
                    | Some q \<Rightarrow> addToDiscard [q] (discards_question g0))\<rparr>;
          g = g\<lparr>table_question := None\<rparr>;
          g = g\<lparr>discards_answer := addToDiscard (concat (table_answer g)) (discards_answer g)\<rparr>;
          g = g\<lparr>table_answer := []\<rparr>
      in case cleanPlayers call (players g) [] g of
           (removedNicks, Ok g) \<Rightarrow>
             Ok ((if length removedNicks > 0 then say (SayRemovedInactive removedNicks) g else g)
                   \<lparr>state := STARTED\<rparr>)
         | (removedNicks, other) \<Rightarrow> other)"

text \<open>\<^verbatim>\<open>showEntries\<close>.\<close>

definition showEntries_body :: "(req \<Rightarrow> game \<Rightarrow> outcome) \<Rightarrow> game \<Rightarrow> outcome" where
  "showEntries_body call g0 =
     (let g = g0\<lparr>turnTimer := False\<rparr>;
          g = g\<lparr>state := PLAYED\<rparr>
      in if length (table_answer g) = 0
         then andThen (call ReqClean (say SayNoOnePlayed g)) nextRound
         else if length (table_answer g) = 1
         then call (ReqSelectWinner (NumKey 0) None) (say SayOnlyOnePlayed g)
         else
           (let g = g\<lparr>table_answer := shuffleWith (rnd g) (table_answer g),
                      rnd := drop (length (table_answer g)) (rnd g)\<rparr>;
                g = say (SayEntries (table_answer g)) g
            in case find (\<lambda>p. isCzar (objs g p)) (players g) of
                 None \<Rightarrow>
                   (case randomIndex (length (table_answer g)) (say SayCzarFled g) of
                      (i, g) \<Rightarrow> call (ReqSelectWinner (NumKey i) None) g)
               | Some _ \<Rightarrow>
                   (case czar g of
                      None \<Rightarrow> Throw TypeError g
                    | Some c \<Rightarrow>
                        Ok ((say (SaySelectWinner (nick (objs g c))) g)
                              \<lparr>winnerTimer := True, roundStarted := clock g\<rparr>))))"

text \<open>
  \<^verbatim>\<open>removePlayer(player, options)\<close>; \<^verbatim>\<open>silent\<close> is \<^verbatim>\<open>options.silent === true\<close>. The hand
  goes to the answer discard pile and \<^verbatim>\<open>_.without\<close> takes the player out of the roster.
\<close>

definition removePlayer_body ::
  "(req \<Rightarrow> game \<Rightarrow> outcome) \<Rightarrow> pid \<Rightarrow> bool \<Rightarrow> game \<Rightarrow> outcome" where
  "removePlayer_body call p silent g0 =
     (let hand = cards (objs g0 p);
          g = upd p (\<lambda>pl. pl\<lparr>cards := []\<rparr>) g0;
          g = g\<lparr>players := removeAll p (players g)\<rparr>;
          g = g\<lparr>discards_answer := addToDiscard hand (discards_answer g)\<rparr>;
          g = (if \<not> silent then say (SayLeft (nick (objs g p))) g else g)
      in andThen (if state g = PLAYABLE \<and> checkAllPlayed g then call ReqShowEntries g else Ok g)
           (\<lambda>g. if state g = PLAYED \<and> czar g = Some p
                 then (case randomIndex (length (table_answer g)) (say SayCzarFled g) of
                         (i, g) \<Rightarrow> call (ReqSelectWinner (NumKey i) None) g)
                 else Ok g))"

fun run :: "nat \<Rightarrow> req \<Rightarrow> game \<Rightarrow> outcome" where
  "run 0 r g = OutOfFuel"
| "run (Suc n) (ReqSelectWinner index player) g = selectWinner_body (run n) index player g"
| "run (Suc n) ReqClean g = clean_body (run n) g"
| "run (Suc n) (ReqRemovePlayer p silent) g = removePlayer_body (run n) p silent g"
| "run (Suc n) ReqShowEntries g = showEntries_body (run n) g"

definition selectWinner :: "nat \<Rightarrow> jskey \<Rightarrow> pid option \<Rightarrow> game \<Rightarrow> outcome" where
  "selectWinner n index player g = run n (ReqSelectWinner index player) g"

definition clean :: "nat \<Rightarrow> game \<Rightarrow> outcome" where
  "clean n g = run n ReqClean g"

definition removePlayer :: "nat \<Rightarrow> pid \<Rightarrow> bool \<Rightarrow> game \<Rightarrow> outcome" where
  "removePlayer n p silent g = run n (ReqRemovePlayer p silent) g"

definition showEntries :: "nat \<Rightarrow> game \<Rightarrow> outcome" where
  "showEntries n g = run n ReqShowEntries g"

section \<open>Commands, timers and roster changes\<close>

text \<open>
  \<^verbatim>\<open>playCard(cards, player)\<close>. The exception of \<^verbatim>\<open>pickCards\<close> is caught and answered
  with a private message; reading the pick-count of a \<^verbatim>\<open>null\<close> prompt throws.
\<close>

definition playCard :: "nat \<Rightarrow> int list \<Rightarrow> pid \<Rightarrow> game \<Rightarrow> outcome" where
  "playCard n cards0 p g =
     (if state g = PAUSED then Ok (say SayPaused g)
      else
        (let cs = uniq cards0 in
         if state g \<noteq> PLAYABLE \<or> length (cards (objs g p)) = 0
         then Ok (say (SayCantPlay (nick (objs g p))) g)
         else if isCzar (objs g p)
         then Ok (say (SayCzarDoesNotPlay (nick (objs g p))) g)
         else if hasPlayed (objs g p)
         then Ok (say (SayAlreadyPlayed (nick (objs g p))) g)
         else
           (case table_question g of
              None \<Rightarrow> Throw TypeError g
            | Some q \<Rightarrow>
                if int (length cs) \<noteq> pick q
                then Ok (say (SayMustPick (nick (objs g p)) (pick q)) g)
                else
                  (case pickCards cs (cards (objs g p)) of
                     Inl e \<Rightarrow> Ok (say (PmInvalidIndex (nick (objs g p))) g)
                   | Inr (playerCards, rest) \<Rightarrow>
                       (let g = upd p (\<lambda>pl. pl\<lparr>cards := rest\<rparr>) g;
                            g = g\<lparr>table_answer := table_answer g @ [playerCards]\<rparr>;
                            g = upd p (\<lambda>pl. pl\<lparr>hasPlayed := True\<rparr>) g;
                            g = upd p (\<lambda>pl. pl\<lparr>inactiveRounds := Num 0\<rparr>) g;
                            g = say (PmYouPlayed (nick (objs g p)) q playerCards) g
                        in if checkAllPlayed g then showEntries n g else Ok g)))))"

text \<open>
  \<^verbatim>\<open>discard(cards, player)\<close>. An empty list of indices stands for the whole hand. The
  hand is refilled to its size before the picked cards reach the discard pile.
\<close>

definition discard :: "int list \<Rightarrow> pid \<Rightarrow> game \<Rightarrow> outcome" where
  "discard cards0 p g =
     (if state g = PAUSED then Ok (say SayPaused g)
      else
        (let cs = uniq cards0 in
         if state g \<noteq> PLAYABLE \<or> length (cards (objs g p)) = 0
         then Ok (say (SayCantDiscard (nick (objs g p))) g)
         else if isCzar (objs g p)
         then Ok (say (SayCzarCannotDiscard (nick (objs g p))) g)
         else if hasDiscarded (objs g p)
         then Ok (say (SayDiscardOnce (nick (objs g p))) g)
         else if points (objs g p) < 1
         then Ok (say (SayNeedPoint (nick (objs g p))) g)
         else
           (let cs = (if length cs = 0
                      then map int [0..<length (cards (objs g p))] else cs)
            in case pickCards cs (cards (objs g p)) of
                 Inl e \<Rightarrow> Ok (say (PmInvalidIndex (nick (objs g p))) g)
               | Inr (playerCards, rest) \<Rightarrow>
                   (let g = upd p (\<lambda>pl. pl\<lparr>cards := rest\<rparr>) g in
                    andThen
                      (deal_player p
                         (int (length (cards (objs g p))) + int (length playerCards)) g)
                      (\<lambda>g.
                         (let g = g\<lparr>discards_answer :=
                                      addToDiscard playerCards (discards_answer g)\<rparr>;
                              g = upd p (\<lambda>pl. pl\<lparr>hasDiscarded := True\<rparr>) g;
                              g = upd p (\<lambda>pl. pl\<lparr>points := points pl - 1\<rparr>) g;
                              g = say (PmDiscarded (nick (objs g p)) (points (objs g p))) g
                          in Ok (showCards p g)))))))"

text \<open>\<^verbatim>\<open>resume\<close>.\<close>

definition resume :: "nat \<Rightarrow> game \<Rightarrow> outcome" where
  "resume n g0 =
     (if state g0 \<noteq> PAUSED then Ok (say SayNotPaused g0)
      else
        (let g = g0\<lparr>roundStarted := clock g0 - pauseState_elapsed g0\<rparr>;
             g = g\<lparr>state := pauseState_state g\<rparr>;
             g = say SayResumed g
         in if state g = PLAYED then
              (if (case czar g of None \<Rightarrow> -1 | Some c \<Rightarrow> indexOf (players g) c) < 0
               then (case randomIndex (length (table_answer g)) (say SayCzarQuitDuringPause g) of
                       (i, g) \<Rightarrow> selectWinner n (NumKey i) None g)
               else Ok (g\<lparr>winnerTimer := True\<rparr>))
            else if state g = PLAYABLE then Ok (g\<lparr>turnTimer := True\<rparr>)
            else Ok g))"

text \<open>
  \<^verbatim>\<open>turnTimerCheck\<close> and \<^verbatim>\<open>winnerTimerCheck\<close>, called every ten seconds while their
  timer is armed. Times are in milliseconds.
\<close>

definition timeLimit :: "game \<Rightarrow> int" where
  "timeLimit g = 60 * 1000 * roundMinutes g"

definition turnTimerCheck :: "nat \<Rightarrow> game \<Rightarrow> outcome" where
  "turnTimerCheck n g =
     (let roundElapsed = clock g - roundStarted g in
      if roundElapsed \<ge> timeLimit g
      then showEntries n (markInactivePlayers (say SayTimeUp g))
      else if roundElapsed \<ge> timeLimit g - 10 * 1000 \<and> roundElapsed < timeLimit g
      then Ok (say (SayTimeLeft 10) g)
      else if roundElapsed \<ge> timeLimit g - 30 * 1000 \<and> roundElapsed < timeLimit g - 20 * 1000
      then Ok (say (SayTimeLeft 30) g)
      else if roundElapsed \<ge> timeLimit g - 60 * 1000 \<and> roundElapsed < timeLimit g - 50 * 1000
      then Ok (say SayStatus (say (SayTimeLeft 60) g))
      else Ok g)"

definition winnerTimerCheck :: "nat \<Rightarrow> game \<Rightarrow> outcome" where
  "winnerTimerCheck n g =
     (let roundElapsed = clock g - roundStarted g in
      if roundElapsed \<ge> timeLimit g
      then (case czar (say SayTimeUpWinner g) of
              None \<Rightarrow> Throw TypeError (say SayTimeUpWinner g)
            | Some c \<Rightarrow>
                (case randomIndex (length (table_answer g))
                        (upd c (\<lambda>pl. pl\<lparr>inactiveRounds := js_incr (inactiveRounds pl)\<rparr>)
                           (say SayTimeUpWinner g)) of
                   (i, g) \<Rightarrow> selectWinner n (NumKey i) None g))
      else
        (case czar g of
           None \<Rightarrow>
             if (roundElapsed \<ge> timeLimit g - 10 * 1000 \<and> roundElapsed < timeLimit g)
              \<or> (roundElapsed \<ge> timeLimit g - 30 * 1000 \<and> roundElapsed < timeLimit g - 20 * 1000)
              \<or> (roundElapsed \<ge> timeLimit g - 60 * 1000 \<and> roundElapsed < timeLimit g - 50 * 1000)
             then Throw TypeError g else Ok g
         | Some c \<Rightarrow>
             if roundElapsed \<ge> timeLimit g - 10 * 1000 \<and> roundElapsed < timeLimit g
             then Ok (say (SayCzarTimeLeft (nick (objs g c)) 10) g)
             else if roundElapsed \<ge> timeLimit g - 30 * 1000 \<and> roundElapsed < timeLimit g - 20 * 1000
             then Ok (say (SayCzarTimeLeft (nick (objs g c)) 30) g)
             else if roundElapsed \<ge> timeLimit g - 60 * 1000 \<and> roundElapsed < timeLimit g - 50 * 1000
             then Ok (say (SayCzarTimeLeft (nick (objs g c)) 60) g)
             else Ok g))"

text \<open>
  \<^verbatim>\<open>getPlayer\<close> with the search \<^verbatim>\<open>{nick, hostname}\<close>, as \<^verbatim>\<open>addPlayer\<close> and the commands
  of \<^verbatim>\<open>games.js\<close> use it, and with \<^verbatim>\<open>{nick}\<close>, as the roster-change handlers do.
\<close>

definition getPlayer :: "string \<Rightarrow> string \<Rightarrow> game \<Rightarrow> pid option" where
  "getPlayer n h g = find (\<lambda>q. nick (objs g q) = n \<and> hostname (objs g q) = h) (players g)"

definition getPlayerByNick :: "string \<Rightarrow> game \<Rightarrow> pid option" where
  "getPlayerByNick n g = find (\<lambda>q. nick (objs g q) = n) (players g)"

text \<open>
  \<^verbatim>\<open>addPlayer(player)\<close>; the player object is the one stored at \<^verbatim>\<open>p\<close>. The first
  component of the result is the value returned: the player, or \<^verbatim>\<open>None\<close> for \<^verbatim>\<open>false\<close>.
\<close>

definition addPlayer :: "pid \<Rightarrow> game \<Rightarrow> pid option \<times> outcome" where
  "addPlayer p g0 =
     (if getPlayer (nick (objs g0 p)) (hostname (objs g0 p)) g0 = None then
        (case (case find (\<lambda>k. e_nick (ledger g0 ! k) = nick (objs g0 p)
                             \<and> e_hostname (ledger g0 ! k) = hostname (objs g0 p))
                      [0..<length (ledger g0)] of
                 None \<Rightarrow>
                   Some (g0\<lparr>ledger := ledger g0 @
                               [\<lparr>e_nick = nick (objs g0 p), e_hostname = hostname (objs g0 p),
                                 e_player = p, e_points = 0\<rparr>],
                             idleCounts := (idleCounts g0)(nick (objs g0 p) := Num 0)\<rparr>)
               | Some k \<Rightarrow>
                   if js_ge (idleCounts g0 (nick (objs g0 p))) (idleLimit g0) then None
                   else Some (upd p (\<lambda>pl. pl\<lparr>points := e_points (ledger g0 ! k)\<rparr>)
                                (g0\<lparr>ledger := (ledger g0)[k := (ledger g0 ! k)\<lparr>e_player := p\<rparr>]\<rparr>))) of
           None \<Rightarrow> (None, Ok (say (SayBanned (nick (objs g0 p))) g0))
         | Some g \<Rightarrow>
             (let g = g\<lparr>players := players g @ [p]\<rparr>;
                  g = say (SayJoined (nick (objs g p))) g
              in if state g = WAITING \<and> length (players g) \<ge> 3
                 then (case nextRound g of
                         Ok g \<Rightarrow> (Some p, Ok g)
                       | other \<Rightarrow> (None, other))
                 else (Some p, Ok g)))
      else (None, Ok g0))"

text \<open>
  The handlers of roster changes: a player who parts, quits or is kicked is removed if
  playing; a nick change renames the player object and nothing else.
\<close>

definition findAndRemoveIfPlaying :: "nat \<Rightarrow> string \<Rightarrow> game \<Rightarrow> outcome" where
  "findAndRemoveIfPlaying n nk g =
     (case getPlayerByNick nk g of
        None \<Rightarrow> Ok g
      | Some p \<Rightarrow> removePlayer n p False g)"

definition playerNickChangeHandler :: "string \<Rightarrow> string \<Rightarrow> game \<Rightarrow> game" where
  "playerNickChangeHandler oldnick newnick g =
     (case getPlayerByNick oldnick g of
        None \<Rightarrow> g
      | Some p \<Rightarrow> upd p (\<lambda>pl. pl\<lparr>nick := newnick\<rparr>) g)"

section \<open>Construction and example sessions\<close>

text \<open>
  The constructor \<^verbatim>\<open>Game\<close>: the cards of the configuration are split into the two
  decks, which are shuffled; the session starts in state \<^verbatim>\<open>Started\<close> with the start
  timeout armed. The point limit of the configuration or of the command arguments is
  the parameter \<^verbatim>\<open>ptLimit\<close>.
\<close>

definition Game :: "card list \<Rightarrow> card list \<Rightarrow> int \<Rightarrow> int \<Rightarrow> int \<Rightarrow> nat list \<Rightarrow> game" where
  "Game questions answers minutes limit ptLimit rs =
     \<lparr> round = 0, players = [], objs = (\<lambda>_. Player [] [] []), state = STARTED,
       pauseState_state = STARTED, pauseState_elapsed = 0, ledger = [],
       idleCounts = (\<lambda>_. Undefined), pointLimit = ptLimit,
       decks_question = shuffleWith rs questions,
       decks_answer = shuffleWith (drop (length questions) rs) answers,
       discards_question = [], discards_answer = [],
       table_question = None, table_answer = [], czar = None, roundStarted = 0,
       startTimeout = True, stopTimeout = False, turnTimer = False, winnerTimer = False,
       roundMinutes = minutes, idleLimit = limit, clock = 0,
       rnd = drop (length questions + length answers) rs, outbox = [] \<rparr>"

text \<open>Cards and sessions for the examples below.\<close>

definition aCard :: "string \<Rightarrow> card" where
  "aCard v = \<lparr>cvalue = v, pick = 0, draw = 0, owner = None\<rparr>"

definition qCard :: "string \<Rightarrow> int \<Rightarrow> int \<Rightarrow> card" where
  "qCard v k d = \<lparr>cvalue = v, pick = k, draw = d, owner = None\<rparr>"

definition emptyAnswers :: game where
  "emptyAnswers = (Game [qCard ''q1'' 1 0] [] 1 3 0 [])
     \<lparr>discards_answer := [aCard ''x'', aCard ''y''], rnd := [1, 2, 3]\<rparr>"

definition emptyQuestions :: game where
  "emptyQuestions = (Game [] [aCard ''x''] 1 3 0 [])
     \<lparr>discards_question := [qCard ''q1'' 1 0, qCard ''q2'' 2 0], rnd := [1, 2, 3]\<rparr>"

section \<open>Notions used in the statements\<close>

text \<open>Two player objects that differ at most in the hand.\<close>

definition sameButCards :: "player \<Rightarrow> player \<Rightarrow> bool" where
  "sameButCards a b = (a\<lparr>cards := []\<rparr> = b\<lparr>cards := []\<rparr>)"

text \<open>
  Three players with full hands between two rounds: the judge of the last round is the
  first of the roster and one prompt is left in the deck.
\<close>

definition trio :: game where
  "trio = (Game [] [] 1 3 0 [])
     \<lparr>players := [0, 1, 2],
      objs := (\<lambda>i. (Player ''p'' ''u'' ''h'')\<lparr>cards := replicate 10 ((aCard ''w'')\<lparr>owner := Some i\<rparr>)\<rparr>),
      decks_question := [qCard ''q'' 1 0], czar := Some 0, round := 1\<rparr>"

text \<open>The session an operation leaves behind, whether it returned or threw.\<close>

fun outcomeGame :: "outcome \<Rightarrow> game option" where
  "outcomeGame (Ok g) = Some g"
| "outcomeGame (Throw e g) = Some g"
| "outcomeGame OutOfFuel = None"

text \<open>
  The identity of a player: nickname, user id and host id, used jointly. A roster is
  duplicate-free when no two of its members share it.
\<close>

definition identityKey :: "player \<Rightarrow> string \<times> string \<times> string" where
  "identityKey pl = (nick pl, user pl, hostname pl)"

definition uniqueRoster :: "game \<Rightarrow> bool" where
  "uniqueRoster g = distinct (map (\<lambda>p. identityKey (objs g p)) (players g))"

text \<open>
  A waiting session with two players, and two player objects not on the roster: one
  with the identity of the first roster member, one new.
\<close>

definition waitingPair :: game where
  "waitingPair = (Game [qCard ''q'' 1 0] [] 1 3 0 [])
     \<lparr>players := [0, 1],
      objs := (\<lambda>i. (Player ''p'' ''u'' ''h'')\<lparr>nick := (if i = 0 \<or> i = 5 then ''ann'' else if i = 1 then ''bob'' else ''cy''),
                cards := replicate 10 ((aCard ''w'')\<lparr>owner := Some i\<rparr>)\<rparr>),
      state := WAITING\<rparr>"

text \<open>
  A round in progress: the first of three players is the judge, each player holds ten
  cards and the prompt asks for one card.
\<close>

definition playing :: game where
  "playing = (Game [] [] 1 3 0 [])
     \<lparr>players := [0, 1, 2],
      objs := (\<lambda>i. (Player (if i = 0 then ''ann'' else if i = 1 then ''bob'' else ''cy'') ''u'' ''h'')
                \<lparr>cards := replicate 10 ((aCard ''w'')\<lparr>owner := Some i\<rparr>),
                  isCzar := (i = 0)\<rparr>),
      state := PLAYABLE, table_question := Some (qCard ''q'' 1 0), czar := Some 0, round := 1,
      turnTimer := True, startTimeout := False\<rparr>"

text \<open>
  The round in progress, with the second player holding one point and ten cards left
  in the answer deck.
\<close>

definition playingRich :: game where
  "playingRich = (upd 2 (\<lambda>pl. pl\<lparr>points := 1\<rparr>) playing)
     \<lparr>decks_answer := replicate 10 (aCard ''d'')\<rparr>"

text \<open>
  The round after both players have played: two groups are on the table, the judge is
  to select and the winner timer runs. Each player has an entry in the score ledger.
\<close>

definition judging :: game where
  "judging = playing
     \<lparr>objs := (\<lambda>i. (objs playing i)\<lparr>hasPlayed := (i \<noteq> 0), inactiveRounds := (if i = 0 then Undefined else Num 0)\<rparr>),
      state := PLAYED,
      table_answer := [[(aCard ''x'')\<lparr>owner := Some 1\<rparr>], [(aCard ''y'')\<lparr>owner := Some 2\<rparr>]],
      ledger := map (\<lambda>i. \<lparr>e_nick = nick (objs playing i), e_hostname = ''h'', e_player = i, e_points = 0\<rparr>) [0, 1, 2],
      idleCounts := (\<lambda>n. if n = ''ann'' \<or> n = ''bob'' \<or> n = ''cy'' then Num 0 else Undefined),
      decks_question := [qCard ''q2'' 1 0],
      turnTimer := False, winnerTimer := True\<rparr>"

text \<open>
  The guard of both timer checks, \<^verbatim>\<open>roundElapsed >= timeLimit\<close>, and the time at which an
  interval timer armed at \<open>t0\<close> with \<^verbatim>\<open>setInterval(f, 10 * 1000)\<close> fires for the \<open>k\<close>-th time.
\<close>

definition timeIsUp :: "game \<Rightarrow> bool" where
  "timeIsUp g = (clock g - roundStarted g \<ge> timeLimit g)"

definition tickTime :: "int \<Rightarrow> nat \<Rightarrow> int" where
  "tickTime t0 k = t0 + 10 * 1000 * int k"

text \<open>
  The test of \<^verbatim>\<open>clean\<close> for an idle player, \<^verbatim>\<open>player.inactiveRounds >= 1\<close>, and the
  increment \<^verbatim>\<open>self.idleCounts[nick]++\<close> of the idle count stored under a nick.
\<close>

definition isIdle :: "game \<Rightarrow> pid \<Rightarrow> bool" where
  "isIdle g p = js_ge (inactiveRounds (objs g p)) 1"

definition bump :: "string \<Rightarrow> (string \<Rightarrow> jsnum) \<Rightarrow> (string \<Rightarrow> jsnum)" where
  "bump nk ic = ic(nk := js_incr (ic nk))"

text \<open>What \<^verbatim>\<open>clean\<close> and the removal of a player leave of a player object.\<close>

definition samePerson :: "player \<Rightarrow> player \<Rightarrow> bool" where
  "samePerson a b = (nick a = nick b \<and> user a = user b \<and> hostname a = hostname b
     \<and> points a = points b \<and> inactiveRounds a = inactiveRounds b)"

text \<open>
  What the removal of idle players during \<^verbatim>\<open>clean\<close> leaves of a session: everything but
  the roster, the hands and flags of the players, the answer discard pile, the random
  source, the winner timer and the messages sent, none of which announces a player
  as having left.
\<close>

definition quietly :: "game \<Rightarrow> game \<Rightarrow> bool" where
  "quietly g g' = (state g' = state g \<and> table_answer g' = table_answer g
     \<and> table_question g' = table_question g \<and> ledger g' = ledger g \<and> czar g' = czar g
     \<and> round g' = round g \<and> pointLimit g' = pointLimit g
     \<and> decks_question g' = decks_question g \<and> decks_answer g' = decks_answer g
     \<and> discards_question g' = discards_question g
     \<and> (\<forall>q. samePerson (objs g' q) (objs g q))
     \<and> (\<exists>ms. outbox g' = outbox g @ ms \<and> (\<forall>nk. SayLeft nk \<notin> set ms)))"

text \<open>
  The end of a round in which the third player, who had played in an earlier round,
  did not play: the timeout has counted one inactive round for that player.
\<close>

definition roundOver :: game where
  "roundOver = judging
     \<lparr>objs := (\<lambda>i. (objs judging i)\<lparr>inactiveRounds := (if i = 2 then Num 1 else inactiveRounds (objs judging i)),
                                     hasPlayed := (i = 1)\<rparr>),
      table_answer := [[(aCard ''x'')\<lparr>owner := Some 1\<rparr>]],
      state := ROUND_END, winnerTimer := False\<rparr>"

text \<open>The session an operation returns; nothing when it threw or ran out of budget.\<close>

fun returned :: "outcome \<Rightarrow> game option" where
  "returned (Ok g) = Some g"
| "returned (Throw e g) = None"
| "returned OutOfFuel = None"

text \<open>
  The consecutive-inactive-round counter of a player and the idle count kept under a
  nick, read off a session. The judge of \<^verbatim>\<open>judging\<close> lets the time for the selection run out: the clock stands at
  70 seconds after the start of the round, with a limit of one minute.
\<close>

definition counterOf :: "pid \<Rightarrow> game \<Rightarrow> jsnum" where
  "counterOf p g = inactiveRounds (objs g p)"

definition idleCountOf :: "string \<Rightarrow> game \<Rightarrow> jsnum" where
  "idleCountOf nk g = idleCounts g nk"

definition judgeTimedOut :: game where
  "judgeTimedOut = judging\<lparr>clock := roundStarted judging + 70000\<rparr>"

text \<open>
  The end of the round of \<^verbatim>\<open>roundOver\<close> when the third player, who joined as \<open>cy\<close>, has
  changed nick to \<open>cyd\<close> in the meantime.
\<close>

definition renamedIdle :: game where
  "renamedIdle = playerNickChangeHandler ''cy'' ''cyd'' roundOver"

section \<open>Properties\<close>

lemma mset_shuffleWith: "mset (shuffleWith rs xs) = mset xs"
proof (induction rs xs rule: shuffleWith.induct)
  case (3 r rs x xs)
  let ?ys = "shuffleWith rs xs"
  let ?k = "r mod (length ?ys + 1)"
  have "mset (take ?k ?ys) + mset (drop ?k ?ys) = mset ?ys"
    by (metis append_take_drop_id mset_append)
  with 3 show ?case by (simp add: Let_def)
qed simp_all

lemma length_shuffleWith: "length (shuffleWith rs xs) = length xs"
  using mset_shuffleWith [of rs xs] by (metis size_mset)

subsection \<open>Refilling an empty deck\<close>

text \<open>
  C8. When \<^verbatim>\<open>checkDecks\<close> finds the answer deck empty and its discard pile holding
  \<open>N\<close> cards, the deck afterwards holds exactly these \<open>N\<close> cards, in the shuffled
  order, and the discard pile is empty; an answer deck that is not empty is left as it
  is, with its discard pile. The same holds for the question deck and its discard pile.
\<close>

theorem checkDecks_refill:
  "(decks_answer g = [] \<longrightarrow>
      length (decks_answer (checkDecks g)) = length (discards_answer g)
      \<and> mset (decks_answer (checkDecks g)) = mset (discards_answer g)
      \<and> decks_answer (checkDecks g) = shuffleWith (rnd g) (discards_answer g)
      \<and> discards_answer (checkDecks g) = [])
   \<and> (decks_answer g \<noteq> [] \<longrightarrow>
      decks_answer (checkDecks g) = decks_answer g
      \<and> discards_answer (checkDecks g) = discards_answer g)
   \<and> (decks_question g = [] \<longrightarrow>
      length (decks_question (checkDecks g)) = length (discards_question g)
      \<and> mset (decks_question (checkDecks g)) = mset (discards_question g)
      \<and> discards_question (checkDecks g) = [])
   \<and> (decks_question g \<noteq> [] \<longrightarrow>
      decks_question (checkDecks g) = decks_question g
      \<and> discards_question (checkDecks g) = discards_question g)"
  by (simp add: checkDecks_def Let_def mset_shuffleWith length_shuffleWith)

theorem checkDecks_refill_witness:
  "decks_answer emptyAnswers = [] \<and> decks_question emptyAnswers \<noteq> []
   \<and> length (decks_answer (checkDecks emptyAnswers)) = 2
   \<and> discards_answer (checkDecks emptyAnswers) = []
   \<and> decks_question (checkDecks emptyAnswers) = decks_question emptyAnswers
   \<and> decks_question emptyQuestions = [] \<and> decks_answer emptyQuestions \<noteq> []
   \<and> length (decks_question (checkDecks emptyQuestions)) = 2
   \<and> discards_question (checkDecks emptyQuestions) = []
   \<and> decks_answer (checkDecks emptyQuestions) = decks_answer emptyQuestions"
proof -
  have a: "decks_answer emptyAnswers = []" "decks_question emptyAnswers \<noteq> []"
    "length (discards_answer emptyAnswers) = 2"
    by (simp_all add: emptyAnswers_def Game_def)
  have q: "decks_question emptyQuestions = []" "decks_answer emptyQuestions \<noteq> []"
    "length (discards_question emptyQuestions) = 2"
    by (simp_all add: emptyQuestions_def Game_def)
  from a q checkDecks_refill [of emptyAnswers] checkDecks_refill [of emptyQuestions]
  show ?thesis by (simp add: length_shuffleWith)
qed

lemma sameButCards_refl [simp]: "sameButCards a a"
  by (simp add: sameButCards_def)

lemma sameButCards_upd [simp]: "sameButCards (a\<lparr>cards := cs\<rparr>) b = sameButCards a b"
  "sameButCards a (b\<lparr>cards := cs\<rparr>) = sameButCards a b"
  by (simp_all add: sameButCards_def)

lemma sameButCards_trans: "sameButCards a b \<Longrightarrow> sameButCards b c \<Longrightarrow> sameButCards a c"
  by (simp add: sameButCards_def)

lemma sameButCards_fields:
  "sameButCards a b \<Longrightarrow> nick a = nick b \<and> user a = user b \<and> hostname a = hostname b
     \<and> hasPlayed a = hasPlayed b \<and> hasDiscarded a = hasDiscarded b \<and> isCzar a = isCzar b
     \<and> points a = points b \<and> idled a = idled b \<and> inactiveRounds a = inactiveRounds b"
  unfolding sameButCards_def
  by (metis (no_types) player.select_convs player.surjective player.update_convs(4) player.ext_inject)

subsection \<open>Auxiliary facts\<close>

lemma indexOf_notin: "x \<notin> set xs \<Longrightarrow> indexOf xs x = -1"
  by (induction xs) (auto simp: Let_def)

lemma indexOf_ge: "indexOf xs x \<ge> -1"
  by (induction xs) (auto simp: Let_def)

lemma indexOf_nth: "distinct xs \<Longrightarrow> i < length xs \<Longrightarrow> indexOf xs (xs ! i) = int i"
proof (induction xs arbitrary: i)
  case Nil then show ?case by simp
next
  case (Cons y ys)
  show ?case
  proof (cases i)
    case 0 then show ?thesis by simp
  next
    case (Suc j)
    with Cons.prems have j: "j < length ys" and d: "distinct ys" and ny: "y \<notin> set ys" by auto
    from j ny have "ys ! j \<noteq> y" by (metis nth_mem)
    with Cons.IH [OF d j] Suc show ?thesis by (simp add: Let_def)
  qed
qed

lemma checkDecks_frame:
  "players (checkDecks g) = players g" "czar (checkDecks g) = czar g"
  "round (checkDecks g) = round g" "state (checkDecks g) = state g"
  "table_question (checkDecks g) = table_question g"
  "table_answer (checkDecks g) = table_answer g"
  "objs (checkDecks g) = objs g" "ledger (checkDecks g) = ledger g"
  "idleCounts (checkDecks g) = idleCounts g" "outbox (checkDecks g) = outbox g"
  "pointLimit (checkDecks g) = pointLimit g" "clock (checkDecks g) = clock g"
  by (simp_all add: checkDecks_def Let_def)

lemma dealCards_frame:
  "dealCards k p g = Ok g' \<Longrightarrow>
     players g' = players g \<and> czar g' = czar g \<and> round g' = round g \<and> state g' = state g
     \<and> table_question g' = table_question g \<and> table_answer g' = table_answer g
     \<and> ledger g' = ledger g \<and> idleCounts g' = idleCounts g \<and> outbox g' = outbox g
     \<and> pointLimit g' = pointLimit g \<and> clock g' = clock g"
proof (induction k arbitrary: g)
  case 0 then show ?case by simp
next
  case (Suc k)
  show ?case
  proof (cases "decks_answer (checkDecks g)")
    case Nil
    with Suc.prems show ?thesis by (simp add: Let_def draw_card_def)
  next
    case (Cons c rest)
    let ?g1 = "upd p (\<lambda>pl. pl\<lparr>cards := cards pl @ [c\<lparr>owner := Some p\<rparr>]\<rparr>)
               ((checkDecks g)\<lparr>decks_answer := rest\<rparr>)"
    from Suc.prems Cons have "dealCards k p ?g1 = Ok g'" by (simp add: Let_def draw_card_def)
    from Suc.IH [OF this] show ?thesis
      by (simp add: upd_def checkDecks_frame) 
  qed
qed

lemma dealCards_objs:
  "dealCards k p g = Ok g' \<Longrightarrow> sameButCards (objs g' q) (objs g q)"
proof (induction k arbitrary: g)
  case 0 then show ?case by simp
next
  case (Suc k)
  show ?case
  proof (cases "decks_answer (checkDecks g)")
    case Nil
    with Suc.prems show ?thesis by (simp add: Let_def draw_card_def)
  next
    case (Cons c rest)
    let ?g1 = "upd p (\<lambda>pl. pl\<lparr>cards := cards pl @ [c\<lparr>owner := Some p\<rparr>]\<rparr>)
               ((checkDecks g)\<lparr>decks_answer := rest\<rparr>)"
    from Suc.prems Cons have "dealCards k p ?g1 = Ok g'" by (simp add: Let_def draw_card_def)
    from Suc.IH [OF this] have "sameButCards (objs g' q) (objs ?g1 q)" .
    moreover have "sameButCards (objs ?g1 q) (objs g q)"
      by (simp add: upd_def checkDecks_frame)
    ultimately show ?thesis by (rule sameButCards_trans)
  qed
qed

lemma deal_each_frame:
  "deal_each ps g = Ok g' \<Longrightarrow>
     players g' = players g \<and> czar g' = czar g \<and> round g' = round g \<and> state g' = state g
     \<and> table_question g' = table_question g \<and> table_answer g' = table_answer g
     \<and> ledger g' = ledger g \<and> idleCounts g' = idleCounts g \<and> outbox g' = outbox g
     \<and> pointLimit g' = pointLimit g \<and> clock g' = clock g"
proof (induction ps arbitrary: g)
  case Nil then show ?case by simp
next
  case (Cons p ps)
  from Cons.prems obtain g1 where
    1: "dealCards (nat (10 - int (length (cards (objs g p))))) p g = Ok g1"
    and 2: "deal_each ps g1 = Ok g'"
    by (cases "dealCards (nat (10 - int (length (cards (objs g p))))) p g") simp_all
  from dealCards_frame [OF 1] Cons.IH [OF 2] show ?case by simp
qed

lemma deal_each_objs:
  "deal_each ps g = Ok g' \<Longrightarrow> sameButCards (objs g' q) (objs g q)"
proof (induction ps arbitrary: g)
  case Nil then show ?case by simp
next
  case (Cons p ps)
  from Cons.prems obtain g1 where
    1: "dealCards (nat (10 - int (length (cards (objs g p))))) p g = Ok g1"
    and 2: "deal_each ps g1 = Ok g'"
    by (cases "dealCards (nat (10 - int (length (cards (objs g p))))) p g") simp_all
  from Cons.IH [OF 2] dealCards_objs [OF 1] show ?case by (rule sameButCards_trans)
qed

lemma draw_each_frame:
  "draw_each ps k g = Ok g' \<Longrightarrow>
     players g' = players g \<and> czar g' = czar g \<and> round g' = round g \<and> state g' = state g
     \<and> table_question g' = table_question g \<and> table_answer g' = table_answer g
     \<and> ledger g' = ledger g \<and> idleCounts g' = idleCounts g \<and> outbox g' = outbox g
     \<and> pointLimit g' = pointLimit g \<and> clock g' = clock g"
proof (induction ps arbitrary: g)
  case Nil then show ?case by simp
next
  case (Cons p ps)
  from Cons.prems obtain g1 where
    1: "dealCards k p g = Ok g1" and 2: "draw_each ps k g1 = Ok g'"
    by (cases "dealCards k p g") simp_all
  from dealCards_frame [OF 1] Cons.IH [OF 2] show ?case by simp
qed

lemma draw_each_objs:
  "draw_each ps k g = Ok g' \<Longrightarrow> sameButCards (objs g' q) (objs g q)"
proof (induction ps arbitrary: g)
  case Nil then show ?case by simp
next
  case (Cons p ps)
  from Cons.prems obtain g1 where
    1: "dealCards k p g = Ok g1" and 2: "draw_each ps k g1 = Ok g'"
    by (cases "dealCards k p g") simp_all
  from Cons.IH [OF 2] dealCards_objs [OF 1] show ?case by (rule sameButCards_trans)
qed


lemma at_nth: "i < length xs \<Longrightarrow> at xs (int i) = Some (xs ! i)"
  by (simp add: at_def)

lemma at_length: "at xs (int (length xs)) = None"
  by (simp add: at_def)

lemma setCzar_next:
  assumes "distinct (players g)" "i < length (players g)" "czar g = Some (players g ! i)"
  shows "setCzar g = Ok (upd (players g ! ((i + 1) mod length (players g))) (\<lambda>pl. pl\<lparr>isCzar := True\<rparr>)
                          (g\<lparr>czar := Some (players g ! ((i + 1) mod length (players g)))\<rparr>))"
proof (cases "i + 1 < length (players g)")
  case True
  then have "at (players g) (int i + 1) = Some (players g ! (i + 1))"
    by (simp add: at_def nat_add_distrib)
  with assms True show ?thesis
    by (simp add: setCzar_def indexOf_nth Let_def)
next
  case False
  with assms have e: "i + 1 = length (players g)" by simp
  then have "at (players g) (int i + 1) = None"
    by (simp add: at_def)
  moreover have "at (players g) 0 = Some (players g ! 0)"
    using assms by (auto simp add: at_def)
  ultimately show ?thesis using assms e
    by (simp add: setCzar_def indexOf_nth Let_def)
qed

lemma setCzar_first:
  assumes "players g \<noteq> []" "czar g = None \<or> (\<exists>c. czar g = Some c \<and> c \<notin> set (players g))"
  shows "setCzar g = Ok (upd (players g ! 0) (\<lambda>pl. pl\<lparr>isCzar := True\<rparr>)
                          (g\<lparr>czar := Some (players g ! 0)\<rparr>))"
proof -
  have "at (players g) 0 = Some (players g ! 0)"
    using assms by (simp add: at_def)
  with assms show ?thesis
    by (auto simp: setCzar_def indexOf_notin Let_def)
qed

lemma fold_showCards:
  "fold showCards ps g =
     g\<lparr>outbox := outbox g @ map (\<lambda>p. PmCards (nick (objs g p)) (cards (objs g p))) ps\<rparr>"
  by (induction ps arbitrary: g) (simp_all add: showCards_def say_def)

lemma playQuestion_frame:
  assumes "playQuestion g = Ok g'"
  shows "players g' = players g \<and> czar g' = czar g \<and> round g' = round g \<and> state g' = state g
     \<and> table_answer g' = table_answer g \<and> table_question g' \<noteq> None
     \<and> ledger g' = ledger g \<and> idleCounts g' = idleCounts g
     \<and> pointLimit g' = pointLimit g \<and> clock g' = clock g"
proof (cases "decks_question (checkDecks g)")
  case Nil
  with assms show ?thesis by (simp add: playQuestion_def draw_card_def)
next
  case (Cons c rest)
  define g1 where "g1 = say (PmCard (map (\<lambda>p. nick (objs g p)) (filter (\<lambda>p. \<not> isCzar (objs g p)) (players g))) c)
       ((say (SayCard c) ((checkDecks g)\<lparr>decks_question := rest\<rparr>))\<lparr>table_question := Some c\<rparr>)"
  have f: "players g1 = players g" "czar g1 = czar g" "round g1 = round g" "state g1 = state g"
     "table_answer g1 = table_answer g" "table_question g1 = Some c"
     "ledger g1 = ledger g" "idleCounts g1 = idleCounts g" "pointLimit g1 = pointLimit g"
     "clock g1 = clock g" "objs g1 = objs g"
    by (simp_all add: g1_def say_def checkDecks_frame)
  show ?thesis
  proof (cases "draw c > 0")
    case False
    with assms Cons have "g' = g1\<lparr>turnTimer := True, roundStarted := clock g1\<rparr>"
      by (simp add: playQuestion_def draw_card_def Let_def g1_def say_def checkDecks_frame)
    with f show ?thesis by simp
  next
    case True
    with assms Cons obtain g2 where
      2: "draw_each (filter (\<lambda>p. \<not> isCzar (objs g p)) (players g)) (nat (draw c)) g1 = Ok g2"
      and 3: "g' = g2\<lparr>turnTimer := True, roundStarted := clock g2\<rparr>"
      by (cases "draw_each (filter (\<lambda>p. \<not> isCzar (objs g p)) (players g)) (nat (draw c)) g1")
         (auto simp add: playQuestion_def draw_card_def Let_def g1_def say_def checkDecks_frame)
    from draw_each_frame [OF 2] f 3 show ?thesis by simp
  qed
qed

lemma stop_fields:
  "state (stop pl b g) = STOPPED" "players (stop pl b g) = []"
  "table_question (stop pl b g) = None" "table_answer (stop pl b g) = []"
  "objs (stop pl b g) = objs g" "ledger (stop pl b g) = ledger g"
  "idleCounts (stop pl b g) = idleCounts g"
  by (simp_all add: stop_def Let_def showPoints_def say_def split: option.split)

lemma nextRound_started:
  assumes "nextRound g = Ok g'" and "state g' = PLAYABLE"
  shows "\<exists>g2 g3 g4. setCzar (g\<lparr>stopTimeout := False, round := round g + 1\<rparr>) = Ok g2
           \<and> deal g2 = Ok g3
           \<and> playQuestion (say (SayRound (round g3)
                 (case czar g3 of Some c \<Rightarrow> nick (objs g3 c) | None \<Rightarrow> [])) g3) = Ok g4
           \<and> g' = (fold showCards (filter (\<lambda>p. \<not> isCzar (objs g4 p)) (players g4)) g4)
                     \<lparr>state := PLAYABLE\<rparr>
           \<and> 3 \<le> length (players g)"
proof -
  let ?g = "g\<lparr>stopTimeout := False\<rparr>"
  let ?w = "if pointLimit ?g > 0
            then find (\<lambda>p. points (objs ?g p) = pointLimit ?g) (players ?g) else None"
  have w: "?w = None"
  proof (cases ?w)
    case (Some w)
    with assms(1) have "g' = stop None True (say (SayPointLimit (nick (objs ?g w)) (pointLimit ?g)) ?g)"
      by (simp add: nextRound_def Let_def)
    with assms(2) show ?thesis by (simp add: stop_fields)
  qed simp
  have len: "\<not> length (players g) < 3"
  proof
    assume "length (players g) < 3"
    with assms(1) w have "g' = (say SayNotEnoughPlayers ?g)\<lparr>state := WAITING, stopTimeout := True\<rparr>"
      by (simp add: nextRound_def Let_def)
    with assms(2) show False by simp
  qed
  from assms(1) w len have r:
    "andThen (setCzar (g\<lparr>stopTimeout := False, round := round g + 1\<rparr>)) (\<lambda>g.
       andThen (deal g) (\<lambda>g.
       andThen (playQuestion
                  (say (SayRound (round g)
                          (case czar g of Some c \<Rightarrow> nick (objs g c) | None \<Rightarrow> [])) g)) (\<lambda>g.
       Ok ((fold showCards (filter (\<lambda>p. \<not> isCzar (objs g p)) (players g)) g)
             \<lparr>state := PLAYABLE\<rparr>)))) = Ok g'"
    by (simp add: nextRound_def Let_def)
  then obtain g2 where 2: "setCzar (g\<lparr>stopTimeout := False, round := round g + 1\<rparr>) = Ok g2"
    by (cases "setCzar (g\<lparr>stopTimeout := False, round := round g + 1\<rparr>)") simp_all
  with r obtain g3 where 3: "deal g2 = Ok g3"
    by (cases "deal g2") simp_all
  with r 2 obtain g4 where 4: "playQuestion (say (SayRound (round g3)
                 (case czar g3 of Some c \<Rightarrow> nick (objs g3 c) | None \<Rightarrow> [])) g3) = Ok g4"
    by (cases "playQuestion (say (SayRound (round g3)
                 (case czar g3 of Some c \<Rightarrow> nick (objs g3 c) | None \<Rightarrow> [])) g3)") simp_all
  from r 2 3 4 have "g' = (fold showCards (filter (\<lambda>p. \<not> isCzar (objs g4 p)) (players g4)) g4)
                     \<lparr>state := PLAYABLE\<rparr>" by simp
  with 2 3 4 len show ?thesis by auto
qed

subsection \<open>Rotation of the judge\<close>

text \<open>
  C4. When \<^verbatim>\<open>nextRound\<close> starts a round, the roster is the one it found, the round
  number is one higher, and the new judge is the roster member after the previous
  judge, the first member following the last; the first member is also chosen when
  there was no judge or when the previous judge is no longer on the roster.
\<close>

theorem nextRound_judge_rotation:
  assumes "nextRound g = Ok g'" and "state g' = PLAYABLE" and "distinct (players g)"
  shows "players g' = players g \<and> round g' = round g + 1
     \<and> (\<forall>i. i < length (players g) \<and> czar g = Some (players g ! i)
            \<longrightarrow> czar g' = Some (players g ! ((i + 1) mod length (players g))))
     \<and> ((czar g = None \<or> (\<exists>c. czar g = Some c \<and> c \<notin> set (players g)))
            \<longrightarrow> czar g' = Some (players g ! 0))"
proof -
  let ?g1 = "g\<lparr>stopTimeout := False, round := round g + 1\<rparr>"
  from nextRound_started [OF assms(1,2)] obtain g2 g3 g4 where
    2: "setCzar ?g1 = Ok g2" and 3: "deal g2 = Ok g3"
    and 4: "playQuestion (say (SayRound (round g3)
                 (case czar g3 of Some c \<Rightarrow> nick (objs g3 c) | None \<Rightarrow> [])) g3) = Ok g4"
    and 5: "g' = (fold showCards (filter (\<lambda>p. \<not> isCzar (objs g4 p)) (players g4)) g4)
                     \<lparr>state := PLAYABLE\<rparr>"
    and len: "3 \<le> length (players g)"
    by blast
  have g': "players g' = players g4" "czar g' = czar g4" "round g' = round g4"
    using 5 by (simp_all add: fold_showCards)
  have g4: "players g4 = players g3" "czar g4 = czar g3" "round g4 = round g3"
    using playQuestion_frame [OF 4] by (simp_all add: say_def)
  have g3: "players g3 = players g2" "czar g3 = czar g2" "round g3 = round g2"
    using deal_each_frame [OF 3 [unfolded deal_def]] by simp_all
  have d1: "distinct (players ?g1)" and ne: "players ?g1 \<noteq> []"
    using assms(3) len by auto
  have g2: "players g2 = players g" "round g2 = round g + 1"
    using 2 by (auto simp add: setCzar_def Let_def upd_def split: option.splits)
  have rot: "czar g2 = Some (players g ! ((i + 1) mod length (players g)))"
    if "i < length (players g)" "czar g = Some (players g ! i)" for i
    using setCzar_next [OF d1, of i] that 2 by (simp add: upd_def)
  have first: "czar g2 = Some (players g ! 0)"
    if "czar g = None \<or> (\<exists>c. czar g = Some c \<and> c \<notin> set (players g))"
    using setCzar_first [OF ne] that 2 by (auto simp add: upd_def)
  from g' g4 g3 g2 rot first show ?thesis by simp
qed

lemma nextRound_trio:
  "c = Some 0 \<or> c = Some 2 \<or> c = None \<or> c = Some 7 \<Longrightarrow>
     \<exists>g'. nextRound (trio\<lparr>czar := c\<rparr>) = Ok g' \<and> state g' = PLAYABLE"
  by (auto simp add: nextRound_def trio_def Game_def setCzar_def deal_def Let_def at_def
     upd_def say_def Player_def aCard_def qCard_def playQuestion_def checkDecks_def draw_card_def
     showCards_def)

theorem nextRound_judge_rotation_witness:
  "distinct (players trio)
   \<and> (\<exists>g'. nextRound (trio\<lparr>czar := Some 0\<rparr>) = Ok g' \<and> state g' = PLAYABLE \<and> czar g' = Some 1)
   \<and> (\<exists>g'. nextRound (trio\<lparr>czar := Some 2\<rparr>) = Ok g' \<and> state g' = PLAYABLE \<and> czar g' = Some 0)
   \<and> (\<exists>g'. nextRound (trio\<lparr>czar := None\<rparr>) = Ok g' \<and> state g' = PLAYABLE \<and> czar g' = Some 0)
   \<and> (\<exists>g'. nextRound (trio\<lparr>czar := Some 7\<rparr>) = Ok g' \<and> state g' = PLAYABLE \<and> czar g' = Some 0)"
proof -
  have p: "players (trio\<lparr>czar := c\<rparr>) = [0, 1, 2]" "czar (trio\<lparr>czar := c\<rparr>) = c" for c
    by (simp_all add: trio_def Game_def)
  have d: "distinct (players (trio\<lparr>czar := c\<rparr>))" for c by (simp add: p)
  have a: "\<exists>g'. nextRound (trio\<lparr>czar := Some 0\<rparr>) = Ok g' \<and> state g' = PLAYABLE \<and> czar g' = Some 1"
  proof -
    from nextRound_trio [of "Some 0"] obtain g' where
      h: "nextRound (trio\<lparr>czar := Some 0\<rparr>) = Ok g'" "state g' = PLAYABLE" by auto
    from nextRound_judge_rotation [OF h d]
    have "\<forall>i. i < length (players (trio\<lparr>czar := Some 0\<rparr>))
              \<and> czar (trio\<lparr>czar := Some 0\<rparr>) = Some (players (trio\<lparr>czar := Some 0\<rparr>) ! i)
            \<longrightarrow> czar g' = Some (players (trio\<lparr>czar := Some 0\<rparr>)
                  ! ((i + 1) mod length (players (trio\<lparr>czar := Some 0\<rparr>))))"
      by blast
    from this [rule_format, of 0] have "czar g' = Some 1" by (simp add: p)
    with h show ?thesis by blast
  qed
  have b: "\<exists>g'. nextRound (trio\<lparr>czar := Some 2\<rparr>) = Ok g' \<and> state g' = PLAYABLE \<and> czar g' = Some 0"
  proof -
    from nextRound_trio [of "Some 2"] obtain g' where
      h: "nextRound (trio\<lparr>czar := Some 2\<rparr>) = Ok g'" "state g' = PLAYABLE" by auto
    from nextRound_judge_rotation [OF h d]
    have "\<forall>i. i < length (players (trio\<lparr>czar := Some 2\<rparr>))
              \<and> czar (trio\<lparr>czar := Some 2\<rparr>) = Some (players (trio\<lparr>czar := Some 2\<rparr>) ! i)
            \<longrightarrow> czar g' = Some (players (trio\<lparr>czar := Some 2\<rparr>)
                  ! ((i + 1) mod length (players (trio\<lparr>czar := Some 2\<rparr>))))"
      by blast
    from this [rule_format, of 2] have "czar g' = Some 0" by (simp add: p)
    with h show ?thesis by blast
  qed
  have c: "\<exists>g'. nextRound (trio\<lparr>czar := None\<rparr>) = Ok g' \<and> state g' = PLAYABLE \<and> czar g' = Some 0"
  proof -
    from nextRound_trio [of None] obtain g' where
      h: "nextRound (trio\<lparr>czar := None\<rparr>) = Ok g'" "state g' = PLAYABLE" by auto
    from nextRound_judge_rotation [OF h d] have "czar g' = Some 0" by (simp add: p)
    with h show ?thesis by blast
  qed
  have e: "\<exists>g'. nextRound (trio\<lparr>czar := Some 7\<rparr>) = Ok g' \<and> state g' = PLAYABLE \<and> czar g' = Some 0"
  proof -
    from nextRound_trio [of "Some 7"] obtain g' where
      h: "nextRound (trio\<lparr>czar := Some 7\<rparr>) = Ok g'" "state g' = PLAYABLE" by auto
    from nextRound_judge_rotation [OF h d] have "czar g' = Some 0" by (simp add: p)
    with h show ?thesis by blast
  qed
  have "trio\<lparr>czar := Some 0\<rparr> = trio" by (simp add: trio_def)
  with d [of "Some 0"] have "distinct (players trio)" by simp
  with a b c e show ?thesis by blast
qed

subsection \<open>Uniqueness of the roster\<close>

lemma outcomeGame_andThen:
  "outcomeGame (andThen x f) = Some g' \<Longrightarrow>
     (\<exists>e. x = Throw e g') \<or> (\<exists>g1. x = Ok g1 \<and> outcomeGame (f g1) = Some g')"
  by (cases x) simp_all

lemma dealCards_ids:
  "outcomeGame (dealCards k p g) = Some g' \<Longrightarrow>
     players g' = players g \<and> sameButCards (objs g' q) (objs g q)"
proof (induction k arbitrary: g)
  case 0 then show ?case by simp
next
  case (Suc k)
  show ?case
  proof (cases "decks_answer (checkDecks g)")
    case Nil
    with Suc.prems show ?thesis by (auto simp add: Let_def draw_card_def checkDecks_frame)
  next
    case (Cons c rest)
    let ?g1 = "upd p (\<lambda>pl. pl\<lparr>cards := cards pl @ [c\<lparr>owner := Some p\<rparr>]\<rparr>)
               ((checkDecks g)\<lparr>decks_answer := rest\<rparr>)"
    from Suc.prems Cons have "outcomeGame (dealCards k p ?g1) = Some g'"
      by (simp add: Let_def draw_card_def)
    from Suc.IH [OF this] have 1: "players g' = players ?g1"
      and 2: "sameButCards (objs g' q) (objs ?g1 q)"
      by simp_all
    have 3: "sameButCards (objs ?g1 q) (objs g q)" and 4: "players ?g1 = players g"
      by (simp_all add: upd_def checkDecks_frame)
    from sameButCards_trans [OF 2 3] 1 4 show ?thesis by simp
  qed
qed

lemma deal_each_ids:
  "outcomeGame (deal_each ps g) = Some g' \<Longrightarrow>
     players g' = players g \<and> sameButCards (objs g' q) (objs g q)"
proof (induction ps arbitrary: g)
  case Nil then show ?case by simp
next
  case (Cons p ps)
  let ?x = "dealCards (nat (10 - int (length (cards (objs g p))))) p g"
  from Cons.prems have "outcomeGame (andThen ?x (deal_each ps)) = Some g'" by simp
  from outcomeGame_andThen [OF this] show ?case
  proof
    assume "\<exists>e. ?x = Throw e g'"
    then have "outcomeGame ?x = Some g'" by auto
    from dealCards_ids [OF this] show ?thesis .
  next
    assume "\<exists>g1. ?x = Ok g1 \<and> outcomeGame (deal_each ps g1) = Some g'"
    then obtain g1 where 1: "outcomeGame ?x = Some g1" and 2: "outcomeGame (deal_each ps g1) = Some g'"
      by auto
    from dealCards_ids [OF 1, of q] Cons.IH [OF 2] show ?thesis
      by (auto intro: sameButCards_trans)
  qed
qed

lemma draw_each_ids:
  "outcomeGame (draw_each ps k g) = Some g' \<Longrightarrow>
     players g' = players g \<and> sameButCards (objs g' q) (objs g q)"
proof (induction ps arbitrary: g)
  case Nil then show ?case by simp
next
  case (Cons p ps)
  let ?x = "dealCards k p g"
  from Cons.prems have "outcomeGame (andThen ?x (draw_each ps k)) = Some g'" by simp
  from outcomeGame_andThen [OF this] show ?case
  proof
    assume "\<exists>e. ?x = Throw e g'"
    then have "outcomeGame ?x = Some g'" by auto
    from dealCards_ids [OF this] show ?thesis .
  next
    assume "\<exists>g1. ?x = Ok g1 \<and> outcomeGame (draw_each ps k g1) = Some g'"
    then obtain g1 where 1: "outcomeGame ?x = Some g1" and 2: "outcomeGame (draw_each ps k g1) = Some g'"
      by auto
    from dealCards_ids [OF 1, of q] Cons.IH [OF 2] show ?thesis
      by (auto intro: sameButCards_trans)
  qed
qed

lemma playQuestion_ids:
  assumes "outcomeGame (playQuestion g) = Some g'"
  shows "players g' = players g \<and> sameButCards (objs g' q) (objs g q)"
proof (cases "decks_question (checkDecks g)")
  case Nil
  with assms show ?thesis by (auto simp add: playQuestion_def draw_card_def checkDecks_frame)
next
  case (Cons c rest)
  define g1 where "g1 = say (PmCard (map (\<lambda>p. nick (objs g p)) (filter (\<lambda>p. \<not> isCzar (objs g p)) (players g))) c)
       ((say (SayCard c) ((checkDecks g)\<lparr>decks_question := rest\<rparr>))\<lparr>table_question := Some c\<rparr>)"
  have f: "players g1 = players g" "objs g1 = objs g"
    by (simp_all add: g1_def say_def checkDecks_frame)
  show ?thesis
  proof (cases "draw c > 0")
    case False
    with assms Cons have "g' = g1\<lparr>turnTimer := True, roundStarted := clock g1\<rparr>"
      by (simp add: playQuestion_def draw_card_def Let_def g1_def say_def checkDecks_frame)
    with f show ?thesis by simp
  next
    case True
    let ?x = "draw_each (filter (\<lambda>p. \<not> isCzar (objs g p)) (players g)) (nat (draw c)) g1"
    from assms Cons True have
      "outcomeGame (andThen ?x (\<lambda>g. Ok (g\<lparr>turnTimer := True, roundStarted := clock g\<rparr>))) = Some g'"
      by (simp add: playQuestion_def draw_card_def Let_def g1_def say_def checkDecks_frame)
    from outcomeGame_andThen [OF this] obtain g2 where
      2: "outcomeGame ?x = Some g2" and 3: "players g' = players g2" "objs g' = objs g2"
      by auto
    from draw_each_ids [OF 2, of q] f 3 show ?thesis by simp
  qed
qed

lemma setCzar_ids:
  assumes "outcomeGame (setCzar g) = Some g'"
  shows "players g' = players g \<and> identityKey (objs g' q) = identityKey (objs g q)"
proof -
  define new where "new = (case at (players g) ((case czar g of None \<Rightarrow> -1 | Some c \<Rightarrow> indexOf (players g) c) + 1) of
                   Some p \<Rightarrow> Some p
                 | None \<Rightarrow> at (players g) 0)"
  show ?thesis
  proof (cases new)
    case None
    with assms have "g' = g\<lparr>czar := None\<rparr>"
      by (simp add: setCzar_def Let_def new_def)
    then show ?thesis by simp
  next
    case (Some p)
    with assms have "g' = upd p (\<lambda>pl. pl\<lparr>isCzar := True\<rparr>) (g\<lparr>czar := Some p\<rparr>)"
      by (simp add: setCzar_def Let_def new_def)
    then show ?thesis by (simp add: upd_def identityKey_def)
  qed
qed

lemma sameButCards_identityKey: "sameButCards a b \<Longrightarrow> identityKey a = identityKey b"
  using sameButCards_fields [of a b] by (simp add: identityKey_def)

lemma nextRound_ids:
  assumes "outcomeGame (nextRound g) = Some g'"
  shows "(players g' = players g \<or> players g' = [])
     \<and> identityKey (objs g' q) = identityKey (objs g q)"
proof -
  let ?g = "g\<lparr>stopTimeout := False\<rparr>"
  let ?w = "if pointLimit ?g > 0
            then find (\<lambda>p. points (objs ?g p) = pointLimit ?g) (players ?g) else None"
  show ?thesis
  proof (cases ?w)
    case (Some w)
    with assms have "g' = stop None True (say (SayPointLimit (nick (objs ?g w)) (pointLimit ?g)) ?g)"
      by (simp add: nextRound_def Let_def)
    then show ?thesis by (simp add: stop_fields say_def)
  next
    case None
    show ?thesis
    proof (cases "length (players g) < 3")
      case True
      with assms None have "g' = (say SayNotEnoughPlayers ?g)\<lparr>state := WAITING, stopTimeout := True\<rparr>"
        by (simp add: nextRound_def Let_def)
      then show ?thesis by (simp add: say_def)
    next
      case False
      let ?g1 = "g\<lparr>stopTimeout := False, round := round g + 1\<rparr>"
      let ?sayRound = "\<lambda>g. say (SayRound (round g)
                          (case czar g of Some c \<Rightarrow> nick (objs g c) | None \<Rightarrow> [])) g"
      let ?k3 = "\<lambda>g. Ok ((fold showCards (filter (\<lambda>p. \<not> isCzar (objs g p)) (players g)) g)
             \<lparr>state := PLAYABLE\<rparr>)"
      let ?k2 = "\<lambda>g. andThen (playQuestion (?sayRound g)) ?k3"
      let ?k1 = "\<lambda>g. andThen (deal g) ?k2"
      from assms None False have r: "outcomeGame (andThen (setCzar ?g1) ?k1) = Some g'"
        by (simp add: nextRound_def Let_def)
      have s0: "players ?g1 = players g" "objs ?g1 = objs g" by simp_all
      from outcomeGame_andThen [OF r] show ?thesis
      proof
        assume "\<exists>e. setCzar ?g1 = Throw e g'"
        then have "outcomeGame (setCzar ?g1) = Some g'" by auto
        from setCzar_ids [OF this, of q] s0 show ?thesis by simp
      next
        assume "\<exists>g2. setCzar ?g1 = Ok g2 \<and> outcomeGame (?k1 g2) = Some g'"
        then obtain g2 where 2: "outcomeGame (setCzar ?g1) = Some g2"
          and r2: "outcomeGame (andThen (deal g2) ?k2) = Some g'" by auto
        from setCzar_ids [OF 2, of q] s0
        have s2: "players g2 = players g" "identityKey (objs g2 q) = identityKey (objs g q)"
          by simp_all
        from outcomeGame_andThen [OF r2] show ?thesis
        proof
          assume "\<exists>e. deal g2 = Throw e g'"
          then have "outcomeGame (deal_each (players g2) g2) = Some g'" by (auto simp: deal_def)
          from deal_each_ids [OF this, of q] s2 show ?thesis
            by (auto dest: sameButCards_identityKey)
        next
          assume "\<exists>g3. deal g2 = Ok g3 \<and> outcomeGame (?k2 g3) = Some g'"
          then obtain g3 where 3: "outcomeGame (deal_each (players g2) g2) = Some g3"
            and r3: "outcomeGame (andThen (playQuestion (?sayRound g3)) ?k3) = Some g'"
            by (auto simp: deal_def)
          from deal_each_ids [OF 3, of q] s2
          have s3: "players g3 = players g" "identityKey (objs g3 q) = identityKey (objs g q)"
            by (auto dest: sameButCards_identityKey)
          have sr: "players (?sayRound g3) = players g3" "objs (?sayRound g3) = objs g3"
            by (simp_all add: say_def)
          from outcomeGame_andThen [OF r3] obtain g4 where
            4: "outcomeGame (playQuestion (?sayRound g3)) = Some g4"
            and 5: "players g' = players g4" "objs g' = objs g4"
            by (auto simp add: fold_showCards)
          from playQuestion_ids [OF 4, of q] sr s3 5 show ?thesis
            by (auto dest: sameButCards_identityKey)
        qed
      qed
    qed
  qed
qed


text \<open>
  C9. If no two roster members share an identity (nickname, user id and host id, used
  jointly), then none do after \<^verbatim>\<open>addPlayer\<close>, whether it returned or threw; and adding
  a player whose identity a roster member already has returns \<^verbatim>\<open>false\<close> and leaves the
  session, with its roster, as it was.
\<close>

theorem addPlayer_unique_roster:
  assumes "uniqueRoster g" and "outcomeGame (snd (addPlayer p g)) = Some g'"
  shows "uniqueRoster g'
     \<and> ((\<exists>q \<in> set (players g). identityKey (objs g q) = identityKey (objs g p))
          \<longrightarrow> addPlayer p g = (None, Ok g))"
proof (cases "getPlayer (nick (objs g p)) (hostname (objs g p)) g")
  case (Some q)
  then have "addPlayer p g = (None, Ok g)" by (simp add: addPlayer_def)
  with assms show ?thesis by simp
next
  case None
  then have nodup: "\<forall>q\<in>set (players g). \<not> (nick (objs g q) = nick (objs g p)
                      \<and> hostname (objs g q) = hostname (objs g p))"
    by (simp add: getPlayer_def find_None_iff)
  then have second: "\<not> (\<exists>q \<in> set (players g). identityKey (objs g q) = identityKey (objs g p))"
    by (auto simp: identityKey_def)
  define G1 where "G1 =
     (case find (\<lambda>k. e_nick (ledger g ! k) = nick (objs g p)
                             \<and> e_hostname (ledger g ! k) = hostname (objs g p))
                      [0..<length (ledger g)] of
                 None \<Rightarrow>
                   Some (g\<lparr>ledger := ledger g @
                               [\<lparr>e_nick = nick (objs g p), e_hostname = hostname (objs g p),
                                 e_player = p, e_points = 0\<rparr>],
                             idleCounts := (idleCounts g)(nick (objs g p) := Num 0)\<rparr>)
               | Some k \<Rightarrow>
                   if js_ge (idleCounts g (nick (objs g p))) (idleLimit g) then None
                   else Some (upd p (\<lambda>pl. pl\<lparr>points := e_points (ledger g ! k)\<rparr>)
                                (g\<lparr>ledger := (ledger g)[k := (ledger g ! k)\<lparr>e_player := p\<rparr>]\<rparr>)))"
  show ?thesis
  proof (cases G1)
    case None
    with \<open>getPlayer (nick (objs g p)) (hostname (objs g p)) g = None\<close>
    have "addPlayer p g = (None, Ok (say (SayBanned (nick (objs g p))) g))"
      by (simp add: addPlayer_def G1_def)
    with assms have "g' = say (SayBanned (nick (objs g p))) g" by simp
    with assms(1) second show ?thesis by (simp add: uniqueRoster_def say_def)
  next
    case (Some g1)
    then have g1: "players g1 = players g" "state g1 = state g"
      "\<And>q. identityKey (objs g1 q) = identityKey (objs g q)"
      by (auto simp add: G1_def upd_def identityKey_def split: option.splits if_splits)
    define g2 where "g2 = say (SayJoined (nick (objs g1 p))) (g1\<lparr>players := players g1 @ [p]\<rparr>)"
    have g2: "players g2 = players g @ [p]" "state g2 = state g"
      "\<And>q. identityKey (objs g2 q) = identityKey (objs g q)"
      using g1 by (simp_all add: g2_def say_def)
    have u2: "uniqueRoster g2"
      using assms(1) second by (auto simp add: uniqueRoster_def g2)
    have unfold: "snd (addPlayer p g) =
       (if state g2 = WAITING \<and> length (players g2) \<ge> 3 then nextRound g2 else Ok g2)"
    proof (cases "state g2 = WAITING \<and> length (players g2) \<ge> 3")
      case True
      with Some \<open>getPlayer (nick (objs g p)) (hostname (objs g p)) g = None\<close>
      have "addPlayer p g = (case nextRound g2 of
                         Ok g \<Rightarrow> (Some p, Ok g)
                       | other \<Rightarrow> (None, other))"
        by (simp add: addPlayer_def G1_def [symmetric] Let_def g2_def say_def)
      with True show ?thesis by (cases "nextRound g2") simp_all
    next
      case False
      with Some \<open>getPlayer (nick (objs g p)) (hostname (objs g p)) g = None\<close>
      have "addPlayer p g = (Some p, Ok g2)"
        by (auto simp add: addPlayer_def G1_def [symmetric] Let_def g2_def say_def)
      with False show ?thesis by auto
    qed
    have "uniqueRoster g'"
    proof (cases "state g2 = WAITING \<and> length (players g2) \<ge> 3")
      case False
      with unfold assms(2) have "g' = g2" by auto
      with u2 show ?thesis by simp
    next
      case True
      with unfold assms(2) have n: "outcomeGame (nextRound g2) = Some g'" by simp
      have ids: "(\<lambda>q. identityKey (objs g' q)) = (\<lambda>q. identityKey (objs g2 q))"
        using nextRound_ids [OF n] by (intro ext) simp
      from nextRound_ids [OF n, of p] have "players g' = players g2 \<or> players g' = []" by simp
      with u2 ids show ?thesis by (auto simp add: uniqueRoster_def)
    qed
    with second show ?thesis by simp
  qed
qed


lemma addPlayer_waitingPair:
  "addPlayer 5 waitingPair = (None, Ok waitingPair)"
  "\<exists>g'. addPlayer 2 waitingPair = (Some 2, Ok g') \<and> players g' = [0, 1, 2] \<and> state g' = PLAYABLE"
  by (simp_all add: addPlayer_def getPlayer_def waitingPair_def Game_def Player_def Let_def
        nextRound_def setCzar_def deal_def at_def upd_def say_def aCard_def qCard_def
        playQuestion_def checkDecks_def draw_card_def showCards_def)

theorem addPlayer_unique_roster_witness:
  "uniqueRoster waitingPair
   \<and> (\<exists>q \<in> set (players waitingPair).
         identityKey (objs waitingPair q) = identityKey (objs waitingPair 5))
   \<and> addPlayer 5 waitingPair = (None, Ok waitingPair)
   \<and> (\<exists>g'. outcomeGame (snd (addPlayer 2 waitingPair)) = Some g' \<and> players g' = [0, 1, 2]
          \<and> uniqueRoster g')"
proof -
  have u: "uniqueRoster waitingPair"
    by (simp add: uniqueRoster_def waitingPair_def Game_def identityKey_def Player_def)
  have k: "\<exists>q \<in> set (players waitingPair).
         identityKey (objs waitingPair q) = identityKey (objs waitingPair 5)"
    by (simp add: waitingPair_def Game_def identityKey_def Player_def)
  have o5: "outcomeGame (snd (addPlayer 5 waitingPair)) = Some waitingPair"
    by (simp add: addPlayer_waitingPair(1))
  from addPlayer_unique_roster [OF u o5] k
  have r5: "addPlayer 5 waitingPair = (None, Ok waitingPair)" by blast
  from addPlayer_waitingPair(2) obtain g' where
    o2: "outcomeGame (snd (addPlayer 2 waitingPair)) = Some g'" and p2: "players g' = [0, 1, 2]"
    by auto
  from addPlayer_unique_roster [OF u o2] have "uniqueRoster g'" by blast
  with u k r5 o2 p2 show ?thesis by blast
qed

subsection \<open>Picking cards\<close>

lemma set_uniq [simp]: "set (uniq xs) = set xs"
  by (induction xs rule: uniq.induct) auto

lemma distinct_uniq [simp]: "distinct (uniq xs)"
  by (induction xs rule: uniq.induct) auto

lemma uniq_Nil_iff [simp]: "uniq xs = [] \<longleftrightarrow> xs = []"
  by (cases xs) simp_all

lemma uniq_distinct: "distinct xs \<Longrightarrow> uniq xs = xs"
proof (induction xs)
  case Nil then show ?case by simp
next
  case (Cons a xs)
  then have "filter (\<lambda>y. y \<noteq> a) xs = xs" by (intro filter_True) auto
  with Cons show ?case by simp
qed

lemma enumerate_nths:
  "map snd (filter (\<lambda>(k, c). P k) (enumerate n cs)) =
   map fst (filter (\<lambda>p. P (snd p)) (zip cs [n..<n + length cs]))"
proof (induction cs arbitrary: n)
  case Nil then show ?case by simp
next
  case (Cons c cs)
  have "[n..<n + length (c # cs)] = n # [Suc n..<Suc n + length cs]"
    by (subst upt_rec) simp
  with Cons [of "Suc n"] show ?case by simp
qed

lemma pickCards_rest:
  "map snd (filter (\<lambda>(k, c). int k \<notin> A) (enumerate 0 cs)) = nths cs {k. int k \<notin> A}"
  using enumerate_nths [of "\<lambda>k. int k \<notin> A" 0 cs] by (simp add: nths_def)

lemma pickCards_valid:
  "list_all (validIndex cs) (uniq idxs) \<Longrightarrow>
     pickCards idxs cs = Inr (map (\<lambda>i. cs ! nat i) (uniq idxs), nths cs {k. int k \<notin> set idxs})"
  by (simp add: pickCards_def Let_def pickCards_rest)

lemma pickCards_invalid:
  "\<not> list_all (validIndex cs) (uniq idxs) \<Longrightarrow> pickCards idxs cs = Inl InvalidIndex"
  by (simp add: pickCards_def Let_def)

lemma pickCards_uniq [simp]: "pickCards (uniq idxs) cs = pickCards idxs cs"
  by (simp add: pickCards_def Let_def uniq_distinct)

lemma length_rest:
  assumes "list_all (validIndex cs) idxs" "distinct idxs"
  shows "length (nths cs {k. int k \<notin> set idxs}) = length cs - length idxs"
proof -
  have v: "0 \<le> j \<and> j < int (length cs)" if "j \<in> set idxs" for j
    using assms(1) that by (auto simp: list_all_iff validIndex_def)
  have "i \<in> nat ` set idxs \<longleftrightarrow> int i \<in> set idxs" for i
  proof
    assume "i \<in> nat ` set idxs"
    then obtain j where "j \<in> set idxs" "i = nat j" by auto
    with v [of j] show "int i \<in> set idxs" by simp
  next
    assume "int i \<in> set idxs"
    then have "nat (int i) \<in> nat ` set idxs" by (rule imageI)
    then show "i \<in> nat ` set idxs" by simp
  qed
  then have 1: "{i. i < length cs \<and> i \<in> {k. int k \<notin> set idxs}} = {..<length cs} - nat ` set idxs"
    by auto
  have 2: "nat ` set idxs \<subseteq> {..<length cs}"
  proof
    fix i assume "i \<in> nat ` set idxs"
    then obtain j where "j \<in> set idxs" "i = nat j" by auto
    with v [of j] show "i \<in> {..<length cs}" by (simp add: nat_less_iff)
  qed
  have "inj_on nat (set idxs)"
  proof (rule inj_onI)
    fix x y assume "x \<in> set idxs" "y \<in> set idxs" "nat x = nat y"
    with v [of x] v [of y] show "x = y" by (simp add: eq_nat_nat_iff)
  qed
  then have 3: "card (nat ` set idxs) = length idxs"
    using assms(2) by (simp add: card_image distinct_card)
  from 1 2 3 show ?thesis by (simp add: length_nths card_Diff_subset)
qed

subsection \<open>Playing a card\<close>

lemma playCard_accept:
  assumes "table_question g = Some q" "state g = PLAYABLE" "cards (objs g p) \<noteq> []"
    "\<not> isCzar (objs g p)" "\<not> hasPlayed (objs g p)" "int (length (uniq xs)) = pick q"
    "list_all (validIndex (cards (objs g p))) (uniq xs)"
  shows "playCard n xs p g =
       (let grp = map (\<lambda>i. cards (objs g p) ! nat i) (uniq xs);
            rest = nths (cards (objs g p)) {k. int k \<notin> set xs};
            g1 = say (PmYouPlayed (nick (objs g p)) q grp)
                   ((upd p (\<lambda>pl. pl\<lparr>cards := rest, hasPlayed := True, inactiveRounds := Num 0\<rparr>) g)
                      \<lparr>table_answer := table_answer g @ [grp]\<rparr>)
        in if checkAllPlayed g1 then showEntries n g1 else Ok g1)"
proof -
  have "playCard n xs p g =
     (case pickCards (uniq xs) (cards (objs g p)) of
        Inl e \<Rightarrow> Ok (say (PmInvalidIndex (nick (objs g p))) g)
      | Inr (playerCards, rest) \<Rightarrow>
          (let g = upd p (\<lambda>pl. pl\<lparr>cards := rest\<rparr>) g;
               g = g\<lparr>table_answer := table_answer g @ [playerCards]\<rparr>;
               g = upd p (\<lambda>pl. pl\<lparr>hasPlayed := True\<rparr>) g;
               g = upd p (\<lambda>pl. pl\<lparr>inactiveRounds := Num 0\<rparr>) g;
               g = say (PmYouPlayed (nick (objs g p)) q playerCards) g
           in if checkAllPlayed g then showEntries n g else Ok g))"
    using assms(1-6) by (simp add: playCard_def Let_def)
  also have "pickCards (uniq xs) (cards (objs g p)) =
      Inr (map (\<lambda>i. cards (objs g p) ! nat i) (uniq xs), nths (cards (objs g p)) {k. int k \<notin> set xs})"
    using pickCards_valid [OF assms(7)] by simp
  finally show ?thesis
    by (cases g) (simp add: Let_def upd_def say_def cong: if_cong)
qed

lemma playCard_reject:
  assumes "state g \<noteq> PLAYABLE \<or> cards (objs g p) = [] \<or> isCzar (objs g p) \<or> hasPlayed (objs g p)
     \<or> (table_question g = Some q \<and> (int (length (uniq xs)) \<noteq> pick q
            \<or> \<not> list_all (validIndex (cards (objs g p))) (uniq xs)))"
  shows "\<exists>m. playCard n xs p g = Ok (say m g)"
proof -
  consider (paused) "state g = PAUSED"
    | (cant) "state g \<noteq> PAUSED" "state g \<noteq> PLAYABLE \<or> cards (objs g p) = []"
    | (czar) "state g = PLAYABLE" "cards (objs g p) \<noteq> []" "isCzar (objs g p)"
    | (played) "state g = PLAYABLE" "cards (objs g p) \<noteq> []" "\<not> isCzar (objs g p)"
        "hasPlayed (objs g p)"
    | (count) "state g = PLAYABLE" "cards (objs g p) \<noteq> []" "\<not> isCzar (objs g p)"
        "\<not> hasPlayed (objs g p)" "table_question g = Some q" "int (length (uniq xs)) \<noteq> pick q"
    | (index) "state g = PLAYABLE" "cards (objs g p) \<noteq> []" "\<not> isCzar (objs g p)"
        "\<not> hasPlayed (objs g p)" "table_question g = Some q" "int (length (uniq xs)) = pick q"
        "\<not> list_all (validIndex (cards (objs g p))) (uniq xs)"
    using assms by (cases "state g = PAUSED") auto
  then show ?thesis
  proof cases
    case paused then show ?thesis by (auto simp add: playCard_def)
  next
    case cant then show ?thesis by (auto simp add: playCard_def Let_def)
  next
    case czar then show ?thesis by (auto simp add: playCard_def Let_def)
  next
    case played then show ?thesis by (auto simp add: playCard_def Let_def)
  next
    case count then show ?thesis by (auto simp add: playCard_def Let_def)
  next
    case index
    from pickCards_invalid [OF index(7)] index(1-6) show ?thesis
      by (auto simp add: playCard_def Let_def)
  qed
qed


text \<open>
  C1, as the code has it. In a session with an active prompt, \<^verbatim>\<open>playCard(xs, p)\<close> is
  accepted if and only if the state is \<^verbatim>\<open>Playable\<close>, \<open>p\<close> holds at least one card, is not
  the judge, has not played this round, the number of distinct indexes submitted equals
  the pick-count of the prompt, and every index lies within the hand of \<open>p\<close>. Accepted,
  the picked cards leave the hand of \<open>p\<close>, in the order requested, for a new group at
  the end of the table, \<open>p\<close> is marked as having played, its inactive-round counter is
  reset to 0, the entry is echoed to \<open>p\<close>, and the entries are shown if everyone has
  played. In every other case the call sends one message and changes nothing else.
\<close>

theorem playCard_accepted_iff:
  assumes "table_question g = Some q"
  shows "((state g = PLAYABLE \<and> cards (objs g p) \<noteq> [] \<and> \<not> isCzar (objs g p)
            \<and> \<not> hasPlayed (objs g p) \<and> int (length (uniq xs)) = pick q
            \<and> list_all (validIndex (cards (objs g p))) (uniq xs))
          \<longrightarrow> playCard n xs p g =
               (let grp = map (\<lambda>i. cards (objs g p) ! nat i) (uniq xs);
                    rest = nths (cards (objs g p)) {k. int k \<notin> set xs};
                    g1 = say (PmYouPlayed (nick (objs g p)) q grp)
                           ((upd p (\<lambda>pl. pl\<lparr>cards := rest, hasPlayed := True,
                                             inactiveRounds := Num 0\<rparr>) g)
                              \<lparr>table_answer := table_answer g @ [grp]\<rparr>)
                in if checkAllPlayed g1 then showEntries n g1 else Ok g1))
       \<and> (\<not> (state g = PLAYABLE \<and> cards (objs g p) \<noteq> [] \<and> \<not> isCzar (objs g p)
            \<and> \<not> hasPlayed (objs g p) \<and> int (length (uniq xs)) = pick q
            \<and> list_all (validIndex (cards (objs g p))) (uniq xs))
          \<longrightarrow> (\<exists>m. playCard n xs p g = Ok (say m g)))"
proof (intro conjI impI)
  assume "state g = PLAYABLE \<and> cards (objs g p) \<noteq> [] \<and> \<not> isCzar (objs g p)
            \<and> \<not> hasPlayed (objs g p) \<and> int (length (uniq xs)) = pick q
            \<and> list_all (validIndex (cards (objs g p))) (uniq xs)"
  with assms show "playCard n xs p g =
               (let grp = map (\<lambda>i. cards (objs g p) ! nat i) (uniq xs);
                    rest = nths (cards (objs g p)) {k. int k \<notin> set xs};
                    g1 = say (PmYouPlayed (nick (objs g p)) q grp)
                           ((upd p (\<lambda>pl. pl\<lparr>cards := rest, hasPlayed := True,
                                             inactiveRounds := Num 0\<rparr>) g)
                              \<lparr>table_answer := table_answer g @ [grp]\<rparr>)
                in if checkAllPlayed g1 then showEntries n g1 else Ok g1)"
    by (intro playCard_accept) simp_all
next
  assume "\<not> (state g = PLAYABLE \<and> cards (objs g p) \<noteq> [] \<and> \<not> isCzar (objs g p)
            \<and> \<not> hasPlayed (objs g p) \<and> int (length (uniq xs)) = pick q
            \<and> list_all (validIndex (cards (objs g p))) (uniq xs))"
  with assms show "\<exists>m. playCard n xs p g = Ok (say m g)"
    by (intro playCard_reject [where q = q]) blast
qed

lemma playing_fields:
  "table_question playing = Some (qCard ''q'' 1 0)" "state playing = PLAYABLE"
  "cards (objs playing 2) = replicate 10 ((aCard ''w'')\<lparr>owner := Some 2\<rparr>)"
  "\<not> isCzar (objs playing 2)" "\<not> hasPlayed (objs playing 2)" "\<not> hasDiscarded (objs playing 2)"
  "nick (objs playing 2) = ''cy''" "points (objs playing 2) = 0"
  "pick (qCard ''q'' 1 0) = 1" "table_answer playing = []"
  by (simp_all add: playing_def Game_def Player_def qCard_def)

theorem playCard_accepted_iff_witness:
  "table_question playing = Some (qCard ''q'' 1 0)
   \<and> (state playing = PLAYABLE \<and> cards (objs playing 2) \<noteq> [] \<and> \<not> isCzar (objs playing 2)
        \<and> \<not> hasPlayed (objs playing 2) \<and> int (length (uniq [3::int])) = pick (qCard ''q'' 1 0)
        \<and> list_all (validIndex (cards (objs playing 2))) (uniq [3]))
   \<and> (\<exists>g1. playCard 4 [3] 2 playing = Ok g1 \<and> length (table_answer g1) = 1
          \<and> length (cards (objs g1 2)) = 9 \<and> hasPlayed (objs g1 2)
          \<and> inactiveRounds (objs g1 2) = Num 0)
   \<and> \<not> (state playing = PLAYABLE \<and> cards (objs playing 2) \<noteq> [] \<and> \<not> isCzar (objs playing 2)
        \<and> \<not> hasPlayed (objs playing 2) \<and> int (length (uniq [3::int, 4])) = pick (qCard ''q'' 1 0)
        \<and> list_all (validIndex (cards (objs playing 2))) (uniq [3, 4]))
   \<and> (\<exists>m. playCard 4 [3, 4] 2 playing = Ok (say m playing))"
proof -
  have ok: "state playing = PLAYABLE \<and> cards (objs playing 2) \<noteq> [] \<and> \<not> isCzar (objs playing 2)
        \<and> \<not> hasPlayed (objs playing 2) \<and> int (length (uniq [3::int])) = pick (qCard ''q'' 1 0)
        \<and> list_all (validIndex (cards (objs playing 2))) (uniq [3])"
    by (simp add: playing_fields validIndex_def)
  have no: "\<not> (state playing = PLAYABLE \<and> cards (objs playing 2) \<noteq> [] \<and> \<not> isCzar (objs playing 2)
        \<and> \<not> hasPlayed (objs playing 2) \<and> int (length (uniq [3::int, 4])) = pick (qCard ''q'' 1 0)
        \<and> list_all (validIndex (cards (objs playing 2))) (uniq [3, 4]))"
    by (simp add: playing_fields)
  let ?g1 = "say (PmYouPlayed (nick (objs playing 2)) (qCard ''q'' 1 0)
                    (map (\<lambda>i. cards (objs playing 2) ! nat i) (uniq [3])))
               ((upd 2 (\<lambda>pl. pl\<lparr>cards := nths (cards (objs playing 2)) {k. int k \<notin> set [3]},
                                hasPlayed := True, inactiveRounds := Num 0\<rparr>) playing)
                  \<lparr>table_answer := table_answer playing
                       @ [map (\<lambda>i. cards (objs playing 2) ! nat i) (uniq [3])]\<rparr>)"
  from playCard_accepted_iff [OF playing_fields(1), of 2 "[3]" 4] ok
  have a: "playCard 4 [3] 2 playing = (if checkAllPlayed ?g1 then showEntries 4 ?g1 else Ok ?g1)"
    by (simp add: Let_def)
  have "\<not> checkAllPlayed ?g1"
    by (simp add: checkAllPlayed_def getNotPlayed_def say_def upd_def playing_def Game_def Player_def)
  with a have b: "playCard 4 [3] 2 playing = Ok ?g1" by simp
  have "length (nths (cards (objs playing 2)) {k. int k \<notin> set [3]}) = 9"
    using ok by (subst length_rest) (simp_all add: playing_fields)
  then have c: "length (table_answer ?g1) = 1 \<and> length (cards (objs ?g1 2)) = 9 \<and> hasPlayed (objs ?g1 2)
          \<and> inactiveRounds (objs ?g1 2) = Num 0"
    by (simp add: say_def upd_def playing_fields)
  from playCard_accepted_iff [OF playing_fields(1), of 2 "[3, 4]" 4] no
  have r: "\<exists>m. playCard 4 [3, 4] 2 playing = Ok (say m playing)" by blast
  from playing_fields(1) ok b c no r show ?thesis by blast
qed

text \<open>
  The four conditions of the claim hold for the second player and the index list
  \<open>[99]\<close>, yet the call is refused: the hand has no card 99.
\<close>

theorem playCard_four_conditions_counterexample:
  "state playing = PLAYABLE \<and> \<not> isCzar (objs playing 2) \<and> \<not> hasPlayed (objs playing 2)
   \<and> table_question playing = Some (qCard ''q'' 1 0)
   \<and> int (length [99::int]) = pick (qCard ''q'' 1 0)
   \<and> playCard 4 [99] 2 playing = Ok (say (PmInvalidIndex ''cy'') playing)"
  by (simp add: playing_fields playCard_def Let_def pickCards_def validIndex_def)

subsection \<open>Discarding\<close>

lemma length_picked_le:
  assumes "list_all (validIndex cs) idxs" "distinct idxs"
  shows "length idxs \<le> length cs"
proof -
  have v: "0 \<le> j \<and> j < int (length cs)" if "j \<in> set idxs" for j
    using assms(1) that by (auto simp: list_all_iff validIndex_def)
  have 2: "nat ` set idxs \<subseteq> {..<length cs}"
  proof
    fix i assume "i \<in> nat ` set idxs"
    then obtain j where "j \<in> set idxs" "i = nat j" by auto
    with v [of j] show "i \<in> {..<length cs}" by (simp add: nat_less_iff)
  qed
  have "inj_on nat (set idxs)"
  proof (rule inj_onI)
    fix x y assume "x \<in> set idxs" "y \<in> set idxs" "nat x = nat y"
    with v [of x] v [of y] show "x = y" by (simp add: eq_nat_nat_iff)
  qed
  then have "card (nat ` set idxs) = length idxs"
    using assms(2) by (simp add: card_image distinct_card)
  moreover from 2 have "card (nat ` set idxs) \<le> card {..<length cs}"
    by (intro card_mono) simp_all
  ultimately show ?thesis by simp
qed

lemma dealCards_hand:
  "dealCards k p g = Ok g' \<Longrightarrow>
     \<exists>new. cards (objs g' p) = cards (objs g p) @ new \<and> length new = k"
proof (induction k arbitrary: g)
  case 0 then show ?case by simp
next
  case (Suc k)
  show ?case
  proof (cases "decks_answer (checkDecks g)")
    case Nil
    with Suc.prems show ?thesis by (simp add: Let_def draw_card_def)
  next
    case (Cons c rest)
    let ?g1 = "upd p (\<lambda>pl. pl\<lparr>cards := cards pl @ [c\<lparr>owner := Some p\<rparr>]\<rparr>)
               ((checkDecks g)\<lparr>decks_answer := rest\<rparr>)"
    from Suc.prems Cons have "dealCards k p ?g1 = Ok g'" by (simp add: Let_def draw_card_def)
    from Suc.IH [OF this] obtain new where
      n: "cards (objs g' p) = cards (objs ?g1 p) @ new" "length new = k" by blast
    have "cards (objs ?g1 p) = cards (objs g p) @ [c\<lparr>owner := Some p\<rparr>]"
      by (simp add: upd_def checkDecks_frame)
    with n have "cards (objs g' p) = cards (objs g p) @ (c\<lparr>owner := Some p\<rparr> # new)"
      "length (c\<lparr>owner := Some p\<rparr> # new) = Suc k" by simp_all
    then show ?thesis by blast
  qed
qed

lemma checkDecks_total:
  "length (decks_answer (checkDecks g)) + length (discards_answer (checkDecks g)) =
   length (decks_answer g) + length (discards_answer g)"
  by (simp add: checkDecks_def Let_def length_shuffleWith)

lemma checkDecks_answer:
  "decks_answer g \<noteq> [] \<Longrightarrow> decks_answer (checkDecks g) = decks_answer g
     \<and> discards_answer (checkDecks g) = discards_answer g"
  "decks_answer g = [] \<Longrightarrow> decks_answer (checkDecks g) = shuffleWith (rnd g) (discards_answer g)
     \<and> discards_answer (checkDecks g) = []"
  by (simp_all add: checkDecks_def Let_def)

lemma checkDecks_answer_mset:
  "mset (decks_answer (checkDecks g)) + mset (discards_answer (checkDecks g))
     = mset (decks_answer g) + mset (discards_answer g)"
  by (simp add: checkDecks_def Let_def mset_shuffleWith)

lemma dealCards_others:
  "dealCards k p g = Ok g' \<Longrightarrow> q \<noteq> p \<Longrightarrow> objs g' q = objs g q"
proof (induction k arbitrary: g)
  case 0 then show ?case by simp
next
  case (Suc k)
  show ?case
  proof (cases "decks_answer (checkDecks g)")
    case Nil
    with Suc.prems show ?thesis by (simp add: Let_def draw_card_def)
  next
    case (Cons c rest)
    let ?g1 = "upd p (\<lambda>pl. pl\<lparr>cards := cards pl @ [c\<lparr>owner := Some p\<rparr>]\<rparr>)
               ((checkDecks g)\<lparr>decks_answer := rest\<rparr>)"
    from Suc.prems Cons have "dealCards k p ?g1 = Ok g'" by (simp add: Let_def draw_card_def)
    from Suc.IH [OF this Suc.prems(2)] Suc.prems(2) show ?thesis
      by (simp add: upd_def checkDecks_frame)
  qed
qed

lemma dealCards_drawn:
  "dealCards k p g = Ok g' \<Longrightarrow>
     \<exists>drawn. length drawn = k
       \<and> cards (objs g' p) = cards (objs g p) @ map (\<lambda>c. c\<lparr>owner := Some p\<rparr>) drawn
       \<and> mset drawn + mset (decks_answer g') + mset (discards_answer g')
           = mset (decks_answer g) + mset (discards_answer g)
       \<and> (k \<le> length (decks_answer g) \<longrightarrow> drawn = take k (decks_answer g)
            \<and> decks_answer g' = drop k (decks_answer g)
            \<and> discards_answer g' = discards_answer g)"
proof (induction k arbitrary: g)
  case 0 then show ?case by simp
next
  case (Suc k)
  show ?case
  proof (cases "decks_answer (checkDecks g)")
    case Nil
    with Suc.prems show ?thesis by (simp add: Let_def draw_card_def)
  next
    case (Cons c rest)
    let ?g1 = "upd p (\<lambda>pl. pl\<lparr>cards := cards pl @ [c\<lparr>owner := Some p\<rparr>]\<rparr>)
               ((checkDecks g)\<lparr>decks_answer := rest\<rparr>)"
    from Suc.prems Cons have "dealCards k p ?g1 = Ok g'" by (simp add: Let_def draw_card_def)
    from Suc.IH [OF this] obtain drawn where
      d: "length drawn = k"
      "cards (objs g' p) = cards (objs ?g1 p) @ map (\<lambda>c. c\<lparr>owner := Some p\<rparr>) drawn"
      "mset drawn + mset (decks_answer g') + mset (discards_answer g')
           = mset (decks_answer ?g1) + mset (discards_answer ?g1)"
      "k \<le> length (decks_answer ?g1) \<longrightarrow> drawn = take k (decks_answer ?g1)
            \<and> decks_answer g' = drop k (decks_answer ?g1)
            \<and> discards_answer g' = discards_answer ?g1"
      by blast
    have f: "cards (objs ?g1 p) = cards (objs g p) @ [c\<lparr>owner := Some p\<rparr>]"
      "decks_answer ?g1 = rest" "discards_answer ?g1 = discards_answer (checkDecks g)"
      by (simp_all add: upd_def checkDecks_frame)
    have 1: "length (c # drawn) = Suc k" using d(1) by simp
    have 2: "cards (objs g' p) = cards (objs g p) @ map (\<lambda>c. c\<lparr>owner := Some p\<rparr>) (c # drawn)"
      using d(2) f(1) by simp
    have "mset (c # drawn) + mset (decks_answer g') + mset (discards_answer g')
        = mset (decks_answer (checkDecks g)) + mset (discards_answer (checkDecks g))"
      using d(3) f(2,3) Cons by simp
    then have 3: "mset (c # drawn) + mset (decks_answer g') + mset (discards_answer g')
        = mset (decks_answer g) + mset (discards_answer g)"
      by (simp only: checkDecks_answer_mset)
    have 4: "c # drawn = take (Suc k) (decks_answer g)
            \<and> decks_answer g' = drop (Suc k) (decks_answer g)
            \<and> discards_answer g' = discards_answer g"
      if le: "Suc k \<le> length (decks_answer g)"
    proof -
      from le have ne: "decks_answer g \<noteq> []" by auto
      from checkDecks_answer(1) [OF ne] Cons
      have e: "decks_answer g = c # rest" "discards_answer (checkDecks g) = discards_answer g"
        by simp_all
      with le have "k \<le> length (decks_answer ?g1)" by (simp add: f(2))
      with d(4) have "drawn = take k rest" "decks_answer g' = drop k rest"
        "discards_answer g' = discards_answer g"
        by (simp_all add: f(2,3) e(2))
      then show ?thesis by (simp add: e(1))
    qed
    from 1 2 3 4 show ?thesis by (intro exI [of _ "c # drawn"]) blast
  qed
qed

lemma dealCards_enough:
  "k \<le> length (decks_answer g) + length (discards_answer g) \<Longrightarrow> \<exists>g'. dealCards k p g = Ok g'"
proof (induction k arbitrary: g)
  case 0 then show ?case by simp
next
  case (Suc k)
  have ne: "decks_answer (checkDecks g) \<noteq> []"
  proof (cases "decks_answer g = []")
    case True
    with Suc.prems have "0 < length (discards_answer g)" by (cases "discards_answer g") simp_all
    moreover from checkDecks_answer(2) [OF True]
    have "length (decks_answer (checkDecks g)) = length (discards_answer g)"
      by (simp add: length_shuffleWith)
    ultimately show ?thesis by auto
  next
    case False
    with checkDecks_answer(1) [OF False] show ?thesis by simp
  qed
  then obtain c rest where c: "decks_answer (checkDecks g) = c # rest"
    by (cases "decks_answer (checkDecks g)") auto
  let ?g1 = "upd p (\<lambda>pl. pl\<lparr>cards := cards pl @ [c\<lparr>owner := Some p\<rparr>]\<rparr>)
               ((checkDecks g)\<lparr>decks_answer := rest\<rparr>)"
  have "length (decks_answer ?g1) + length (discards_answer ?g1) =
        length (decks_answer (checkDecks g)) + length (discards_answer (checkDecks g)) - 1"
    using c by (simp add: upd_def)
  with Suc.prems checkDecks_total [of g]
  have "k \<le> length (decks_answer ?g1) + length (discards_answer ?g1)" by simp
  from Suc.IH [OF this] obtain g' where "dealCards k p ?g1 = Ok g'" by blast
  with c show ?case by (simp add: Let_def draw_card_def)
qed

lemma discard_reject:
  assumes "state g \<noteq> PLAYABLE \<or> cards (objs g p) = [] \<or> isCzar (objs g p)
     \<or> hasDiscarded (objs g p) \<or> points (objs g p) < 1
     \<or> (xs \<noteq> [] \<and> \<not> list_all (validIndex (cards (objs g p))) (uniq xs))"
  shows "\<exists>m. discard xs p g = Ok (say m g)"
proof -
  consider (paused) "state g = PAUSED"
    | (cant) "state g \<noteq> PAUSED" "state g \<noteq> PLAYABLE \<or> cards (objs g p) = []"
    | (czar) "state g = PLAYABLE" "cards (objs g p) \<noteq> []" "isCzar (objs g p)"
    | (already) "state g = PLAYABLE" "cards (objs g p) \<noteq> []" "\<not> isCzar (objs g p)"
        "hasDiscarded (objs g p)"
    | (poor) "state g = PLAYABLE" "cards (objs g p) \<noteq> []" "\<not> isCzar (objs g p)"
        "\<not> hasDiscarded (objs g p)" "points (objs g p) < 1"
    | (index) "state g = PLAYABLE" "cards (objs g p) \<noteq> []" "\<not> isCzar (objs g p)"
        "\<not> hasDiscarded (objs g p)" "\<not> points (objs g p) < 1" "xs \<noteq> []"
        "\<not> list_all (validIndex (cards (objs g p))) (uniq xs)"
    using assms by (cases "state g = PAUSED") auto
  then show ?thesis
  proof cases
    case paused then show ?thesis by (auto simp add: discard_def)
  next
    case cant then show ?thesis by (auto simp add: discard_def Let_def)
  next
    case czar then show ?thesis by (auto simp add: discard_def Let_def)
  next
    case already then show ?thesis by (auto simp add: discard_def Let_def)
  next
    case poor then show ?thesis by (auto simp add: discard_def Let_def)
  next
    case index
    from pickCards_invalid [OF index(7)] index(1-6) show ?thesis
      by (auto simp add: discard_def Let_def)
  qed
qed

lemma discard_accept:
  assumes "state g = PLAYABLE" "cards (objs g p) \<noteq> []" "\<not> isCzar (objs g p)"
    "\<not> hasDiscarded (objs g p)" "1 \<le> points (objs g p)"
    and idxs: "idxs = (if xs = [] then map int [0..<length (cards (objs g p))] else uniq xs)"
    and valid: "list_all (validIndex (cards (objs g p))) idxs"
  shows "discard xs p g =
     andThen (dealCards (length idxs) p
                (upd p (\<lambda>pl. pl\<lparr>cards := nths (cards (objs g p)) {k. int k \<notin> set idxs}\<rparr>) g))
       (\<lambda>g'. (let g1 = g'\<lparr>discards_answer :=
                            addToDiscard (map (\<lambda>i. cards (objs g p) ! nat i) idxs)
                              (discards_answer g')\<rparr>;
                   g2 = upd p (\<lambda>pl. pl\<lparr>hasDiscarded := True\<rparr>) g1;
                   g3 = upd p (\<lambda>pl. pl\<lparr>points := points pl - 1\<rparr>) g2;
                   g4 = say (PmDiscarded (nick (objs g3 p)) (points (objs g3 p))) g3
               in Ok (showCards p g4)))"
proof -
  let ?hand = "cards (objs g p)"
  let ?picked = "map (\<lambda>i. ?hand ! nat i) idxs"
  let ?rest = "nths ?hand {k. int k \<notin> set idxs}"
  let ?g0 = "upd p (\<lambda>pl. pl\<lparr>cards := ?rest\<rparr>) g"
  have d: "distinct idxs" by (simp add: idxs distinct_map)
  then have u: "uniq idxs = idxs" by (rule uniq_distinct)
  from pickCards_valid [of ?hand idxs] valid u
  have pk: "pickCards idxs ?hand = Inr (?picked, ?rest)"
    by simp
  have i: "(if length (uniq xs) = 0 then map int [0..<length ?hand] else uniq xs) = idxs"
    by (simp add: idxs)
  have "discard xs p g =
      (case pickCards idxs ?hand of
                 Inl e \<Rightarrow> Ok (say (PmInvalidIndex (nick (objs g p))) g)
               | Inr (playerCards, rest) \<Rightarrow>
                   (let g = upd p (\<lambda>pl. pl\<lparr>cards := rest\<rparr>) g in
                    andThen
                      (deal_player p
                         (int (length (cards (objs g p))) + int (length playerCards)) g)
                      (\<lambda>g.
                         (let g = g\<lparr>discards_answer :=
                                      addToDiscard playerCards (discards_answer g)\<rparr>;
                              g = upd p (\<lambda>pl. pl\<lparr>hasDiscarded := True\<rparr>) g;
                              g = upd p (\<lambda>pl. pl\<lparr>points := points pl - 1\<rparr>) g;
                              g = say (PmDiscarded (nick (objs g p)) (points (objs g p))) g
                          in Ok (showCards p g)))))"
    unfolding discard_def Let_def i using assms(1-5) by simp
  also have "\<dots> = andThen (deal_player p (int (length (cards (objs ?g0 p))) + int (length ?picked)) ?g0)
       (\<lambda>g'. (let g1 = g'\<lparr>discards_answer := addToDiscard ?picked (discards_answer g')\<rparr>;
                   g2 = upd p (\<lambda>pl. pl\<lparr>hasDiscarded := True\<rparr>) g1;
                   g3 = upd p (\<lambda>pl. pl\<lparr>points := points pl - 1\<rparr>) g2;
                   g4 = say (PmDiscarded (nick (objs g3 p)) (points (objs g3 p))) g3
               in Ok (showCards p g4)))"
    unfolding pk Let_def by simp
  also have "deal_player p (int (length (cards (objs ?g0 p))) + int (length ?picked)) ?g0
      = dealCards (length idxs) p ?g0"
    by (simp add: deal_player_def)
  finally show ?thesis .
qed


text \<open>
  C3. Let \<open>p\<close> be a player who holds cards, is not the judge, has at least one point
  and has not discarded this round, in state \<^verbatim>\<open>Playable\<close>; let the requested indexes (all
  of the hand for an empty request) lie within the hand, and let the answer deck and its
  discard pile hold enough cards for the refill. Then \<^verbatim>\<open>discard(xs, p)\<close> returns. The
  hand is the cards that were not requested, followed by as many cards \<open>drawn\<close>, now owned
  by \<open>p\<close>, as were requested, so that it has its former size. The cards drawn leave the
  answer deck: they, the deck and the pile as the refill left it hold together the
  cards that the deck and the pile held before, and when the deck held enough of them
  they are its first cards, the deck is what follows them and the pile is as it was. The
  requested cards, without owner, are put at the end of the answer discard pile; \<open>p\<close> has
  one point less and is marked as having discarded; the other players, the roster, the
  state, the judge and the table are as before; and any further \<^verbatim>\<open>discard\<close> by \<open>p\<close> sends
  one message and changes nothing else.
\<close>

theorem discard_costs_one_point:
  assumes "state g = PLAYABLE" "cards (objs g p) \<noteq> []" "\<not> isCzar (objs g p)"
    "\<not> hasDiscarded (objs g p)" "1 \<le> points (objs g p)"
    and idxs: "idxs = (if xs = [] then map int [0..<length (cards (objs g p))] else uniq xs)"
    and valid: "list_all (validIndex (cards (objs g p))) idxs"
    and enough: "length idxs \<le> length (decks_answer g) + length (discards_answer g)"
  shows "\<exists>g' drawn pile. discard xs p g = Ok g'
     \<and> cards (objs g' p) = nths (cards (objs g p)) {k. int k \<notin> set idxs}
                              @ map (\<lambda>c. c\<lparr>owner := Some p\<rparr>) drawn
     \<and> length drawn = length idxs \<and> 0 < length idxs
     \<and> length (cards (objs g' p)) = length (cards (objs g p))
     \<and> discards_answer g' = pile @ map (\<lambda>i. (cards (objs g p) ! nat i)\<lparr>owner := None\<rparr>) idxs
     \<and> mset drawn + mset (decks_answer g') + mset pile
         = mset (decks_answer g) + mset (discards_answer g)
     \<and> (length idxs \<le> length (decks_answer g) \<longrightarrow>
           drawn = take (length idxs) (decks_answer g)
         \<and> decks_answer g' = drop (length idxs) (decks_answer g)
         \<and> pile = discards_answer g)
     \<and> points (objs g' p) = points (objs g p) - 1
     \<and> hasDiscarded (objs g' p)
     \<and> (\<forall>q. q \<noteq> p \<longrightarrow> objs g' q = objs g q)
     \<and> players g' = players g \<and> state g' = state g \<and> czar g' = czar g
     \<and> table_question g' = table_question g \<and> table_answer g' = table_answer g
     \<and> (\<forall>ys. \<exists>m. discard ys p g' = Ok (say m g'))"
proof -
  let ?hand = "cards (objs g p)"
  let ?picked = "map (\<lambda>i. ?hand ! nat i) idxs"
  let ?rest = "nths ?hand {k. int k \<notin> set idxs}"
  let ?g0 = "upd p (\<lambda>pl. pl\<lparr>cards := ?rest\<rparr>) g"
  have d: "distinct idxs" by (simp add: idxs distinct_map)
  have pos: "0 < length idxs" using assms(2) by (simp add: idxs)
  have "length idxs \<le> length (decks_answer ?g0) + length (discards_answer ?g0)"
    using enough by (simp add: upd_def)
  from dealCards_enough [OF this] obtain gd where dc: "dealCards (length idxs) p ?g0 = Ok gd"
    by blast
  define g' where "g' = showCards p
      (say (PmDiscarded (nick (objs gd p)) (points (objs gd p) - 1))
         (upd p (\<lambda>pl. pl\<lparr>points := points pl - 1\<rparr>)
            (upd p (\<lambda>pl. pl\<lparr>hasDiscarded := True\<rparr>)
               (gd\<lparr>discards_answer := addToDiscard ?picked (discards_answer gd)\<rparr>))))"
  have r: "discard xs p g = Ok g'"
    unfolding discard_accept [OF assms(1-5) idxs valid] dc g'_def
    by (simp add: Let_def upd_def)
  from dealCards_drawn [OF dc] obtain drawn where
    h: "length drawn = length idxs"
    "cards (objs gd p) = cards (objs ?g0 p) @ map (\<lambda>c. c\<lparr>owner := Some p\<rparr>) drawn"
    "mset drawn + mset (decks_answer gd) + mset (discards_answer gd)
           = mset (decks_answer ?g0) + mset (discards_answer ?g0)"
    "length idxs \<le> length (decks_answer ?g0) \<longrightarrow> drawn = take (length idxs) (decks_answer ?g0)
            \<and> decks_answer gd = drop (length idxs) (decks_answer ?g0)
            \<and> discards_answer gd = discards_answer ?g0"
    by blast
  have h0: "cards (objs ?g0 p) = ?rest" "decks_answer ?g0 = decks_answer g"
    "discards_answer ?g0 = discards_answer g"
    by (simp_all add: upd_def)
  have "sameButCards (objs gd p) (objs ?g0 p)" by (rule dealCards_objs [OF dc])
  moreover have "sameButCards (objs ?g0 p) (objs g p)" by (simp add: upd_def)
  ultimately have "sameButCards (objs gd p) (objs g p)" by (rule sameButCards_trans)
  from sameButCards_fields [OF this] have pts: "points (objs gd p) = points (objs g p)" by simp
  have f: "cards (objs g' p) = cards (objs gd p)" "points (objs g' p) = points (objs gd p) - 1"
    "hasDiscarded (objs g' p)"
    "discards_answer g' = discards_answer gd @ map (\<lambda>c. c\<lparr>owner := None\<rparr>) ?picked"
    "decks_answer g' = decks_answer gd"
    by (simp_all add: g'_def showCards_def say_def upd_def addToDiscard_def)
  have oth: "objs g' q = objs g q" if "q \<noteq> p" for q
  proof -
    from dealCards_others [OF dc that] have "objs gd q = objs ?g0 q" .
    with that show ?thesis by (simp add: g'_def showCards_def say_def upd_def)
  qed
  from dealCards_frame [OF dc]
  have fr: "players g' = players g" "state g' = state g" "czar g' = czar g"
    "table_question g' = table_question g" "table_answer g' = table_answer g"
    by (simp_all add: g'_def showCards_def say_def upd_def)
  have len: "length ?rest + length idxs = length ?hand"
    using length_rest [OF valid d] length_picked_le [OF valid d] by simp
  have again: "\<exists>m. discard ys p g' = Ok (say m g')" for ys
    using f(3) by (intro discard_reject) simp
  have pk: "map (\<lambda>c. c\<lparr>owner := None\<rparr>) ?picked = map (\<lambda>i. (?hand ! nat i)\<lparr>owner := None\<rparr>) idxs"
    by simp
  have c1: "cards (objs g' p) = ?rest @ map (\<lambda>c. c\<lparr>owner := Some p\<rparr>) drawn"
    using f(1) h(2) h0(1) by simp
  have c2: "length (cards (objs g' p)) = length ?hand"
    using c1 h(1) len by simp
  have c3: "discards_answer g' = discards_answer gd @ map (\<lambda>i. (?hand ! nat i)\<lparr>owner := None\<rparr>) idxs"
    using f(4) pk by simp
  have c4: "mset drawn + mset (decks_answer g') + mset (discards_answer gd)
         = mset (decks_answer g) + mset (discards_answer g)"
    using h(3) h0(2,3) f(5) by simp
  have c5: "length idxs \<le> length (decks_answer g) \<longrightarrow>
           drawn = take (length idxs) (decks_answer g)
         \<and> decks_answer g' = drop (length idxs) (decks_answer g)
         \<and> discards_answer gd = discards_answer g"
    using h(4) h0(2,3) f(5) by simp
  have c6: "points (objs g' p) = points (objs g p) - 1" using f(2) pts by simp
  have c7: "\<forall>q. q \<noteq> p \<longrightarrow> objs g' q = objs g q" using oth by blast
  have c8: "\<forall>ys. \<exists>m. discard ys p g' = Ok (say m g')" using again by blast
  from r c1 h(1) pos c2 c3 c4 c5 c6 f(3) c7 fr c8 show ?thesis
    by (intro exI [of _ g'] exI [of _ drawn] exI [of _ "discards_answer gd"])
       (simp only: simp_thms)
qed

theorem discard_costs_one_point_witness:
  "state playingRich = PLAYABLE \<and> cards (objs playingRich 2) \<noteq> [] \<and> \<not> isCzar (objs playingRich 2)
   \<and> \<not> hasDiscarded (objs playingRich 2) \<and> 1 \<le> points (objs playingRich 2)
   \<and> list_all (validIndex (cards (objs playingRich 2))) [0, 4]
   \<and> length [0::int, 4] \<le> length (decks_answer playingRich) + length (discards_answer playingRich)
   \<and> (\<exists>g'. discard [0, 4, 0] 2 playingRich = Ok g'
         \<and> length (cards (objs g' 2)) = 10
         \<and> drop 8 (cards (objs g' 2)) = [(aCard ''d'')\<lparr>owner := Some 2\<rparr>, (aCard ''d'')\<lparr>owner := Some 2\<rparr>]
         \<and> decks_answer g' = replicate 8 (aCard ''d'')
         \<and> discards_answer g' = [(aCard ''w'')\<lparr>owner := None\<rparr>, (aCard ''w'')\<lparr>owner := None\<rparr>]
         \<and> points (objs g' 2) = 0 \<and> hasDiscarded (objs g' 2)
         \<and> (\<exists>m. discard [1] 2 g' = Ok (say m g')))"
proof -
  have f: "state playingRich = PLAYABLE" "cards (objs playingRich 2) \<noteq> []"
    "\<not> isCzar (objs playingRich 2)" "\<not> hasDiscarded (objs playingRich 2)"
    "1 \<le> points (objs playingRich 2)"
    "length (cards (objs playingRich 2)) = 10" "points (objs playingRich 2) = 1"
    "cards (objs playingRich 2) = replicate 10 ((aCard ''w'')\<lparr>owner := Some 2\<rparr>)"
    "decks_answer playingRich = replicate 10 (aCard ''d'')" "discards_answer playingRich = []"
    by (simp_all add: playingRich_def upd_def playing_def Game_def Player_def)
  have i: "[0, 4] = (if [0, 4, 0] = [] then map int [0..<length (cards (objs playingRich 2))]
                      else uniq [0::int, 4, 0])"
    by simp
  have v: "list_all (validIndex (cards (objs playingRich 2))) [0, 4]"
    by (simp add: validIndex_def f(6))
  have e: "length [0::int, 4] \<le> length (decks_answer playingRich) + length (discards_answer playingRich)"
    by (simp add: f(9,10))
  from discard_costs_one_point [OF f(1-5) i v e] obtain g' drawn pile where
    r: "discard [0, 4, 0] 2 playingRich = Ok g'"
    and c: "cards (objs g' 2) = nths (cards (objs playingRich 2)) {k. int k \<notin> set [0, 4]}
                              @ map (\<lambda>c. c\<lparr>owner := Some 2\<rparr>) drawn"
    and l: "length drawn = length [0::int, 4]"
      "length (cards (objs g' 2)) = length (cards (objs playingRich 2))"
    and dp: "discards_answer g' = pile @ map (\<lambda>i. (cards (objs playingRich 2) ! nat i)\<lparr>owner := None\<rparr>) [0, 4]"
    and ex: "length [0::int, 4] \<le> length (decks_answer playingRich) \<longrightarrow>
           drawn = take (length [0::int, 4]) (decks_answer playingRich)
         \<and> decks_answer g' = drop (length [0::int, 4]) (decks_answer playingRich)
         \<and> pile = discards_answer playingRich"
    and pt: "points (objs g' 2) = points (objs playingRich 2) - 1" "hasDiscarded (objs g' 2)"
    and ag: "\<forall>ys. \<exists>m. discard ys 2 g' = Ok (say m g')"
    by blast
  from ex have d: "drawn = [aCard ''d'', aCard ''d'']" "decks_answer g' = replicate 8 (aCard ''d'')"
    "pile = []"
    by (simp_all add: f(9,10))
  from l have l10: "length (cards (objs g' 2)) = 10" by (simp add: f(6))
  define rest where "rest = nths (cards (objs playingRich 2)) {k. int k \<notin> set [0, 4]}"
  from c l l10 have "length rest = 8" by (simp add: rest_def)
  with c have t: "drop 8 (cards (objs g' 2)) = map (\<lambda>c. c\<lparr>owner := Some 2\<rparr>) drawn"
    by (simp add: rest_def)
  have 1: "drop 8 (cards (objs g' 2)) = [(aCard ''d'')\<lparr>owner := Some 2\<rparr>, (aCard ''d'')\<lparr>owner := Some 2\<rparr>]"
    unfolding t d(1) by simp
  have 2: "discards_answer g' = [(aCard ''w'')\<lparr>owner := None\<rparr>, (aCard ''w'')\<lparr>owner := None\<rparr>]"
    unfolding dp d(3) f(8) by simp
  have 3: "points (objs g' 2) = 0" using pt(1) by (simp add: f(7))
  from ag have 4: "\<exists>m. discard [1] 2 g' = Ok (say m g')" by blast
  from f(1-5) v e r l10 1 d(2) 2 3 pt(2) 4 show ?thesis by blast
qed

subsection \<open>Rejected commands\<close>

lemma selectWinner_paused:
  "state g = PAUSED \<Longrightarrow> selectWinner (Suc n) i pl g = Ok (say SayPaused g)"
  by (simp add: selectWinner_def selectWinner_body_def)

lemma selectWinner_notCzar:
  "state g = PLAYED \<Longrightarrow> Some p \<noteq> czar g \<Longrightarrow>
     selectWinner (Suc n) i (Some p) g = Ok (g\<lparr>winnerTimer := False\<rparr>)"
  by (simp add: selectWinner_def selectWinner_body_def Let_def)

lemma selectWinner_invalid:
  "state g = PLAYED \<Longrightarrow> pl = None \<or> pl = czar g \<Longrightarrow> arrayGet (table_answer g) i = Absent \<Longrightarrow>
     selectWinner (Suc n) i pl g = Ok (say SayInvalidWinner (g\<lparr>winnerTimer := False\<rparr>))"
  by (auto simp add: selectWinner_def selectWinner_body_def Let_def)

lemma selectWinner_elsewhere:
  "state g \<noteq> PAUSED \<Longrightarrow> state g \<noteq> PLAYED \<Longrightarrow>
     selectWinner (Suc n) i pl g = Ok (g\<lparr>winnerTimer := False\<rparr>)"
  by (simp add: selectWinner_def selectWinner_body_def Let_def)

text \<open>
  C6, as the code has it. \<^verbatim>\<open>playCard\<close> and \<^verbatim>\<open>discard\<close>, refused for a card index outside
  the hand, a wrong number of indexes, the wrong state or the wrong player, return the
  session they were given with one message added. \<^verbatim>\<open>selectWinner\<close> in a paused session
  does the same. \<^verbatim>\<open>selectWinner\<close> in state \<^verbatim>\<open>Played\<close>, called by the judge with an index
  under which the table holds nothing, returns the session with the message added and
  the winner timer cleared. Called by a player who is not the judge, it returns a session
  that differs from the one given in the winner timer, which is cleared, and in nothing
  else but, at most, the messages sent. Called in any other state than \<^verbatim>\<open>Played\<close> and
  \<^verbatim>\<open>Paused\<close>, it sends no message and returns the session with the winner timer cleared.
  In each case hands, table, decks, discard piles, scores and player flags are as before.
\<close>

theorem rejected_command_changes_nothing:
  "((state g \<noteq> PLAYABLE \<or> cards (objs g p) = [] \<or> isCzar (objs g p) \<or> hasPlayed (objs g p)
      \<or> (table_question g = Some q \<and> (int (length (uniq xs)) \<noteq> pick q
            \<or> \<not> list_all (validIndex (cards (objs g p))) (uniq xs))))
     \<longrightarrow> (\<exists>m. playCard n xs p g = Ok (say m g)))
   \<and> ((state g \<noteq> PLAYABLE \<or> cards (objs g p) = [] \<or> isCzar (objs g p)
      \<or> hasDiscarded (objs g p) \<or> points (objs g p) < 1
      \<or> (xs \<noteq> [] \<and> \<not> list_all (validIndex (cards (objs g p))) (uniq xs)))
     \<longrightarrow> (\<exists>m. discard xs p g = Ok (say m g)))
   \<and> (state g = PAUSED \<longrightarrow> selectWinner (Suc n) i pl g = Ok (say SayPaused g))
   \<and> ((state g = PLAYED \<and> Some p \<noteq> czar g)
     \<longrightarrow> (\<exists>g'. selectWinner (Suc n) i (Some p) g = Ok g'
            \<and> g'\<lparr>outbox := outbox g\<rparr> = g\<lparr>winnerTimer := False\<rparr>))
   \<and> ((state g = PLAYED \<and> (pl = None \<or> pl = czar g) \<and> arrayGet (table_answer g) i = Absent)
     \<longrightarrow> (\<exists>g'. selectWinner (Suc n) i pl g = Ok g'
            \<and> g' = say SayInvalidWinner (g\<lparr>winnerTimer := False\<rparr>)
            \<and> objs g' = objs g \<and> players g' = players g \<and> state g' = state g
            \<and> table_question g' = table_question g \<and> table_answer g' = table_answer g
            \<and> decks_question g' = decks_question g \<and> decks_answer g' = decks_answer g
            \<and> discards_question g' = discards_question g \<and> discards_answer g' = discards_answer g
            \<and> ledger g' = ledger g \<and> idleCounts g' = idleCounts g))
   \<and> ((state g \<noteq> PAUSED \<and> state g \<noteq> PLAYED)
     \<longrightarrow> selectWinner (Suc n) i pl g = Ok (g\<lparr>winnerTimer := False\<rparr>))"
proof (intro conjI impI)
  assume "state g \<noteq> PLAYABLE \<or> cards (objs g p) = [] \<or> isCzar (objs g p) \<or> hasPlayed (objs g p)
      \<or> (table_question g = Some q \<and> (int (length (uniq xs)) \<noteq> pick q
            \<or> \<not> list_all (validIndex (cards (objs g p))) (uniq xs)))"
  then show "\<exists>m. playCard n xs p g = Ok (say m g)" by (rule playCard_reject)
next
  assume "state g \<noteq> PLAYABLE \<or> cards (objs g p) = [] \<or> isCzar (objs g p)
      \<or> hasDiscarded (objs g p) \<or> points (objs g p) < 1
      \<or> (xs \<noteq> [] \<and> \<not> list_all (validIndex (cards (objs g p))) (uniq xs))"
  then show "\<exists>m. discard xs p g = Ok (say m g)" by (rule discard_reject)
next
  assume "state g = PAUSED"
  then show "selectWinner (Suc n) i pl g = Ok (say SayPaused g)" by (rule selectWinner_paused)
next
  assume a: "state g = PLAYED \<and> Some p \<noteq> czar g"
  have "(g\<lparr>winnerTimer := False\<rparr>)\<lparr>outbox := outbox g\<rparr> = g\<lparr>winnerTimer := False\<rparr>"
    by (cases g) simp
  with a show "\<exists>g'. selectWinner (Suc n) i (Some p) g = Ok g'
            \<and> g'\<lparr>outbox := outbox g\<rparr> = g\<lparr>winnerTimer := False\<rparr>"
    by (simp add: selectWinner_notCzar)
next
  assume "state g = PLAYED \<and> (pl = None \<or> pl = czar g) \<and> arrayGet (table_answer g) i = Absent"
  then show "\<exists>g'. selectWinner (Suc n) i pl g = Ok g'
            \<and> g' = say SayInvalidWinner (g\<lparr>winnerTimer := False\<rparr>)
            \<and> objs g' = objs g \<and> players g' = players g \<and> state g' = state g
            \<and> table_question g' = table_question g \<and> table_answer g' = table_answer g
            \<and> decks_question g' = decks_question g \<and> decks_answer g' = decks_answer g
            \<and> discards_question g' = discards_question g \<and> discards_answer g' = discards_answer g
            \<and> ledger g' = ledger g \<and> idleCounts g' = idleCounts g"
    by (simp add: selectWinner_invalid say_def)
next
  assume "state g \<noteq> PAUSED \<and> state g \<noteq> PLAYED"
  then show "selectWinner (Suc n) i pl g = Ok (g\<lparr>winnerTimer := False\<rparr>)"
    by (simp add: selectWinner_elsewhere)
qed

lemma judging_fields:
  "state judging = PLAYED" "czar judging = Some 0" "table_answer judging =
     [[(aCard ''x'')\<lparr>owner := Some 1\<rparr>], [(aCard ''y'')\<lparr>owner := Some 2\<rparr>]]"
  "players judging = [0, 1, 2]" "table_question judging = Some (qCard ''q'' 1 0)"
  "nick (objs judging 2) = ''cy''"
  by (simp_all add: judging_def playing_def Game_def Player_def)

lemma playingRich_fields:
  "state playingRich = PLAYABLE" "cards (objs playingRich 2) = replicate 10 ((aCard ''w'')\<lparr>owner := Some 2\<rparr>)"
  "\<not> isCzar (objs playingRich 2)" "\<not> hasDiscarded (objs playingRich 2)"
  "points (objs playingRich 2) = 1"
  by (simp_all add: playingRich_def upd_def playing_def Game_def Player_def)

theorem rejected_command_changes_nothing_witness:
  "(state playing = PLAYABLE \<and> cards (objs playing 2) \<noteq> [] \<and> \<not> isCzar (objs playing 2)
      \<and> \<not> hasPlayed (objs playing 2) \<and> table_question playing = Some (qCard ''q'' 1 0)
      \<and> int (length (uniq [99::int])) = pick (qCard ''q'' 1 0)
      \<and> \<not> list_all (validIndex (cards (objs playing 2))) (uniq [99]))
   \<and> (\<exists>m. playCard 4 [99] 2 playing = Ok (say m playing))
   \<and> int (length (uniq [3::int, 4])) \<noteq> pick (qCard ''q'' 1 0)
   \<and> (\<exists>m. playCard 4 [3, 4] 2 playing = Ok (say m playing))
   \<and> state judging \<noteq> PLAYABLE
   \<and> (\<exists>m. playCard 4 [3] 2 judging = Ok (say m judging))
   \<and> (state playingRich = PLAYABLE \<and> cards (objs playingRich 2) \<noteq> []
      \<and> \<not> isCzar (objs playingRich 2) \<and> \<not> hasDiscarded (objs playingRich 2)
      \<and> \<not> points (objs playingRich 2) < 1
      \<and> \<not> list_all (validIndex (cards (objs playingRich 2))) (uniq [99]))
   \<and> (\<exists>m. discard [99] 2 playingRich = Ok (say m playingRich))
   \<and> state (pause playing) = PAUSED
   \<and> selectWinner (Suc 3) (WordKey ''0'') (Some 0) (pause playing)
        = Ok (say SayPaused (pause playing))
   \<and> (state judging = PLAYED \<and> Some 2 \<noteq> czar judging)
   \<and> (\<exists>g'. selectWinner (Suc 3) (WordKey ''0'') (Some 2) judging = Ok g'
         \<and> g'\<lparr>outbox := outbox judging\<rparr> = judging\<lparr>winnerTimer := False\<rparr>)
   \<and> (state judging = PLAYED \<and> (Some 0 = None \<or> Some 0 = czar judging)
        \<and> arrayGet (table_answer judging) (WordKey ''7'') = Absent)
   \<and> selectWinner (Suc 3) (WordKey ''7'') (Some 0) judging
        = Ok (say SayInvalidWinner (judging\<lparr>winnerTimer := False\<rparr>))
   \<and> (state playing \<noteq> PAUSED \<and> state playing \<noteq> PLAYED)
   \<and> selectWinner (Suc 3) (WordKey ''0'') (Some 0) playing = Ok (playing\<lparr>winnerTimer := False\<rparr>)"
proof -
  have a: "state playing = PLAYABLE \<and> cards (objs playing 2) \<noteq> [] \<and> \<not> isCzar (objs playing 2)
      \<and> \<not> hasPlayed (objs playing 2) \<and> table_question playing = Some (qCard ''q'' 1 0)
      \<and> int (length (uniq [99::int])) = pick (qCard ''q'' 1 0)
      \<and> \<not> list_all (validIndex (cards (objs playing 2))) (uniq [99])"
    by (simp add: playing_fields validIndex_def qCard_def)
  have a2: "int (length (uniq [3::int, 4])) \<noteq> pick (qCard ''q'' 1 0)" by (simp add: qCard_def)
  have a3: "state judging \<noteq> PLAYABLE" by (simp add: judging_fields)
  have b: "state playingRich = PLAYABLE \<and> cards (objs playingRich 2) \<noteq> []
      \<and> \<not> isCzar (objs playingRich 2) \<and> \<not> hasDiscarded (objs playingRich 2)
      \<and> \<not> points (objs playingRich 2) < 1
      \<and> \<not> list_all (validIndex (cards (objs playingRich 2))) (uniq [99])"
    by (simp add: playingRich_fields validIndex_def)
  have c: "state (pause playing) = PAUSED" by (simp add: pause_def playing_fields say_def)
  have d: "state judging = PLAYED \<and> Some 2 \<noteq> czar judging" by (simp add: judging_fields)
  have e: "state judging = PLAYED \<and> (Some 0 = None \<or> Some 0 = czar judging)
        \<and> arrayGet (table_answer judging) (WordKey ''7'') = Absent"
    by (simp add: judging_fields arrayGet_def wordIndex_def isDigit_def at_def)
  from rejected_command_changes_nothing [where g = playing and p = 2 and q = "qCard ''q'' 1 0"
      and xs = "[99]" and n = 4] a
  have 1: "\<exists>m. playCard 4 [99] 2 playing = Ok (say m playing)" by blast
  from rejected_command_changes_nothing [where g = playing and p = 2 and q = "qCard ''q'' 1 0"
      and xs = "[3, 4]" and n = 4] a a2
  have w2: "\<exists>m. playCard 4 [3, 4] 2 playing = Ok (say m playing)" by blast
  from rejected_command_changes_nothing [where g = judging and p = 2 and xs = "[3]" and n = 4] a3
  have w3: "\<exists>m. playCard 4 [3] 2 judging = Ok (say m judging)" by blast
  have ne: "[99::int] \<noteq> []" by simp
  from rejected_command_changes_nothing [where g = playingRich and p = 2 and xs = "[99]"] b ne
  have 2: "\<exists>m. discard [99] 2 playingRich = Ok (say m playingRich)" by blast
  from rejected_command_changes_nothing [where g = "pause playing" and n = 3
      and i = "WordKey ''0''" and pl = "Some 0"] c
  have 3: "selectWinner (Suc 3) (WordKey ''0'') (Some 0) (pause playing)
        = Ok (say SayPaused (pause playing))"
    by blast
  from rejected_command_changes_nothing [where g = judging and p = 2 and n = 3
      and i = "WordKey ''0''"] d
  have 4: "\<exists>g'. selectWinner (Suc 3) (WordKey ''0'') (Some 2) judging = Ok g'
         \<and> g'\<lparr>outbox := outbox judging\<rparr> = judging\<lparr>winnerTimer := False\<rparr>"
    by blast
  from rejected_command_changes_nothing [where g = judging and n = 3 and i = "WordKey ''7''"
      and pl = "Some 0"] e
  have 5: "selectWinner (Suc 3) (WordKey ''7'') (Some 0) judging
        = Ok (say SayInvalidWinner (judging\<lparr>winnerTimer := False\<rparr>))"
    by blast
  have f: "state playing \<noteq> PAUSED \<and> state playing \<noteq> PLAYED" by (simp add: playing_fields)
  from rejected_command_changes_nothing [where g = playing and n = 3 and i = "WordKey ''0''"
      and pl = "Some 0"] f
  have 6: "selectWinner (Suc 3) (WordKey ''0'') (Some 0) playing = Ok (playing\<lparr>winnerTimer := False\<rparr>)"
    by blast
  from a a2 a3 b c d e f 1 w2 w3 2 3 4 5 6 show ?thesis by blast
qed

text \<open>
  The judge asks for a winner while the round is still \<^verbatim>\<open>Playable\<close>: the call returns
  and no message has been sent.
\<close>

theorem selectWinner_silent_counterexample:
  "state playing = PLAYABLE \<and> czar playing = Some 0
   \<and> selectWinner 4 (WordKey ''0'') (Some 0) playing = Ok (playing\<lparr>winnerTimer := False\<rparr>)
   \<and> outbox (playing\<lparr>winnerTimer := False\<rparr>) = outbox playing"
proof -
  have "czar playing = Some 0" by (simp add: playing_def)
  moreover have "selectWinner (Suc 3) (WordKey ''0'') (Some 0) playing
      = Ok (playing\<lparr>winnerTimer := False\<rparr>)"
    by (rule selectWinner_elsewhere) (simp_all add: playing_fields)
  moreover have "Suc 3 = 4" by simp
  ultimately show ?thesis by (simp add: playing_fields)
qed

text \<open>
  Two calls that the statement above leaves out. A player who is not the judge gets no
  answer, and the judge who gives \<^verbatim>\<open>length\<close> for the index ends the round without a
  winner: the call throws with the session in state \<^verbatim>\<open>RoundEnd\<close>.
\<close>

lemma selectWinner_notCzar_unanswered:
  "outcomeGame (selectWinner 4 (WordKey ''0'') (Some 2) judging) = Some (judging\<lparr>winnerTimer := False\<rparr>)
   \<and> outbox (judging\<lparr>winnerTimer := False\<rparr>) = outbox judging"
proof -
  have "selectWinner (Suc 3) (WordKey ''0'') (Some 2) judging = Ok (judging\<lparr>winnerTimer := False\<rparr>)"
    by (rule selectWinner_notCzar) (simp_all add: judging_fields)
  moreover have "Suc 3 = 4" by simp
  ultimately show ?thesis by simp
qed

lemma selectWinner_word_length:
  "selectWinner (Suc n) (WordKey ''length'') (Some 0) judging
     = Throw TypeError (judging\<lparr>winnerTimer := False, state := ROUND_END\<rparr>)"
  by (simp add: selectWinner_def selectWinner_body_def Let_def judging_fields arrayGet_def
        wordIndex_def isDigit_def arrayProperties_def)

subsection \<open>Pause and resume\<close>

lemma turnTimerCheck_forced:
  "timeIsUp g \<Longrightarrow> turnTimerCheck m g = showEntries m (markInactivePlayers (say SayTimeUp g))"
  by (simp add: turnTimerCheck_def timeIsUp_def Let_def)

lemma turnTimerCheck_waiting:
  "\<not> timeIsUp g \<Longrightarrow> \<exists>ms. turnTimerCheck m g = Ok (g\<lparr>outbox := outbox g @ ms\<rparr>)"
proof -
  assume a: "\<not> timeIsUp g"
  let ?e = "clock g - roundStarted g"
  consider (ten) "?e \<ge> timeLimit g - 10 * 1000 \<and> ?e < timeLimit g"
    | (thirty) "\<not> (?e \<ge> timeLimit g - 10 * 1000 \<and> ?e < timeLimit g)"
        "?e \<ge> timeLimit g - 30 * 1000 \<and> ?e < timeLimit g - 20 * 1000"
    | (sixty) "\<not> (?e \<ge> timeLimit g - 10 * 1000 \<and> ?e < timeLimit g)"
        "\<not> (?e \<ge> timeLimit g - 30 * 1000 \<and> ?e < timeLimit g - 20 * 1000)"
        "?e \<ge> timeLimit g - 60 * 1000 \<and> ?e < timeLimit g - 50 * 1000"
    | (none) "\<not> (?e \<ge> timeLimit g - 10 * 1000 \<and> ?e < timeLimit g)"
        "\<not> (?e \<ge> timeLimit g - 30 * 1000 \<and> ?e < timeLimit g - 20 * 1000)"
        "\<not> (?e \<ge> timeLimit g - 60 * 1000 \<and> ?e < timeLimit g - 50 * 1000)"
    by blast
  then show ?thesis
  proof cases
    case ten
    with a have "turnTimerCheck m g = Ok (g\<lparr>outbox := outbox g @ [SayTimeLeft 10]\<rparr>)"
      by (simp add: turnTimerCheck_def timeIsUp_def Let_def say_def)
    then show ?thesis by blast
  next
    case thirty
    with a have "turnTimerCheck m g = Ok (g\<lparr>outbox := outbox g @ [SayTimeLeft 30]\<rparr>)"
      by (simp add: turnTimerCheck_def timeIsUp_def Let_def say_def)
    then show ?thesis by blast
  next
    case sixty
    with a have "turnTimerCheck m g = Ok (g\<lparr>outbox := outbox g @ [SayTimeLeft 60, SayStatus]\<rparr>)"
      by (simp add: turnTimerCheck_def timeIsUp_def Let_def say_def)
    then show ?thesis by blast
  next
    case none
    with a have "turnTimerCheck m g = Ok (g\<lparr>outbox := outbox g @ []\<rparr>)"
      by (auto simp add: turnTimerCheck_def timeIsUp_def Let_def)
    then show ?thesis by blast
  qed
qed

lemma winnerTimerCheck_forced:
  "timeIsUp g \<Longrightarrow> czar g = Some c \<Longrightarrow>
     winnerTimerCheck m g =
       (case randomIndex (length (table_answer g))
               (upd c (\<lambda>pl. pl\<lparr>inactiveRounds := js_incr (inactiveRounds pl)\<rparr>)
                  (say SayTimeUpWinner g)) of
          (i, g') \<Rightarrow> selectWinner m (NumKey i) None g')"
  by (simp add: winnerTimerCheck_def timeIsUp_def Let_def say_def)

lemma winnerTimerCheck_waiting:
  assumes a: "\<not> timeIsUp g" and c: "czar g = Some c"
  shows "\<exists>ms. winnerTimerCheck m g = Ok (g\<lparr>outbox := outbox g @ ms\<rparr>)"
proof -
  let ?e = "clock g - roundStarted g"
  consider (ten) "?e \<ge> timeLimit g - 10 * 1000 \<and> ?e < timeLimit g"
    | (thirty) "\<not> (?e \<ge> timeLimit g - 10 * 1000 \<and> ?e < timeLimit g)"
        "?e \<ge> timeLimit g - 30 * 1000 \<and> ?e < timeLimit g - 20 * 1000"
    | (sixty) "\<not> (?e \<ge> timeLimit g - 10 * 1000 \<and> ?e < timeLimit g)"
        "\<not> (?e \<ge> timeLimit g - 30 * 1000 \<and> ?e < timeLimit g - 20 * 1000)"
        "?e \<ge> timeLimit g - 60 * 1000 \<and> ?e < timeLimit g - 50 * 1000"
    | (none) "\<not> (?e \<ge> timeLimit g - 10 * 1000 \<and> ?e < timeLimit g)"
        "\<not> (?e \<ge> timeLimit g - 30 * 1000 \<and> ?e < timeLimit g - 20 * 1000)"
        "\<not> (?e \<ge> timeLimit g - 60 * 1000 \<and> ?e < timeLimit g - 50 * 1000)"
    by blast
  then show ?thesis
  proof cases
    case ten
    with a c have "winnerTimerCheck m g
        = Ok (g\<lparr>outbox := outbox g @ [SayCzarTimeLeft (nick (objs g c)) 10]\<rparr>)"
      by (simp add: winnerTimerCheck_def timeIsUp_def Let_def say_def)
    then show ?thesis by blast
  next
    case thirty
    with a c have "winnerTimerCheck m g
        = Ok (g\<lparr>outbox := outbox g @ [SayCzarTimeLeft (nick (objs g c)) 30]\<rparr>)"
      by (simp add: winnerTimerCheck_def timeIsUp_def Let_def say_def)
    then show ?thesis by blast
  next
    case sixty
    with a c have "winnerTimerCheck m g
        = Ok (g\<lparr>outbox := outbox g @ [SayCzarTimeLeft (nick (objs g c)) 60]\<rparr>)"
      by (simp add: winnerTimerCheck_def timeIsUp_def Let_def say_def)
    then show ?thesis by blast
  next
    case none
    with a c have "winnerTimerCheck m g = Ok (g\<lparr>outbox := outbox g @ []\<rparr>)"
      by (auto simp add: winnerTimerCheck_def timeIsUp_def Let_def)
    then show ?thesis by blast
  qed
qed

lemma first_tick:
  assumes "0 \<le> (d::int)"
  shows "\<exists>k\<ge>1. d \<le> 10 * 1000 * int k \<and> 10 * 1000 * int k \<le> d + 10 * 1000
           \<and> (\<forall>j. 1 \<le> j \<and> j < k \<longrightarrow> 10 * 1000 * int j < d)"
proof (cases "d = 0")
  case True
  then show ?thesis by (intro exI [of _ 1]) simp
next
  case False
  define k' where "k' = (d + 9999) div 10000"
  have m: "0 \<le> (d + 9999) mod 10000" "(d + 9999) mod 10000 < 10000"
    by simp_all
  have e: "k' * 10000 + (d + 9999) mod 10000 = d + 9999"
    unfolding k'_def by (rule div_mult_mod_eq)
  have b: "1 \<le> k'" "10000 * k' \<le> d + 9999" "d + 9999 < 10000 * k' + 10000"
    using assms False m e by linarith+
  define k where "k = nat k'"
  from b(1) have k: "int k = k'" by (simp add: k_def)
  with b(1) have k1: "1 \<le> k" by linarith
  have lo: "d \<le> 10 * 1000 * int k" and hi: "10 * 1000 * int k \<le> d + 10 * 1000"
    using b k by linarith+
  have "10 * 1000 * int j < d" if "1 \<le> j \<and> j < k" for j
  proof -
    from that have "int j + 1 \<le> int k" by linarith
    with b k show ?thesis by linarith
  qed
  with k1 lo hi show ?thesis by (intro exI [of _ k]) blast
qed

lemma indexOf_mem: "x \<in> set xs \<Longrightarrow> 0 \<le> indexOf xs x"
proof (induction xs)
  case Nil then show ?case by simp
next
  case (Cons y ys)
  show ?case
  proof (cases "y = x")
    case True then show ?thesis by simp
  next
    case False
    with Cons have "0 \<le> indexOf ys x" by simp
    with False show ?thesis by (simp add: Let_def)
  qed
qed

lemma resume_playable:
  assumes "state g = PLAYABLE"
  shows "resume n ((pause g)\<lparr>clock := t2\<rparr>) =
     Ok (g\<lparr>pauseState_state := PLAYABLE, pauseState_elapsed := clock g - roundStarted g,
           outbox := outbox g @ [SayNowPaused, SayResumed], winnerTimer := False,
           clock := t2, roundStarted := t2 - (clock g - roundStarted g), turnTimer := True\<rparr>)"
  using assms by (cases g) (simp add: resume_def pause_def say_def Let_def)

lemma resume_played:
  assumes "state g = PLAYED" "czar g = Some c" "c \<in> set (players g)"
  shows "resume n ((pause g)\<lparr>clock := t2\<rparr>) =
     Ok (g\<lparr>pauseState_state := PLAYED, pauseState_elapsed := clock g - roundStarted g,
           outbox := outbox g @ [SayNowPaused, SayResumed], turnTimer := False,
           clock := t2, roundStarted := t2 - (clock g - roundStarted g), winnerTimer := True\<rparr>)"
proof -
  from indexOf_mem [OF assms(3)] have "\<not> indexOf (players g) c < 0" by simp
  with assms show ?thesis
    by (cases g) (simp add: resume_def pause_def say_def Let_def)
qed


text \<open>
  C7. A session is paused \<open>X\<close> milliseconds after the start of the round (or of the
  winner selection), in state \<^verbatim>\<open>Playable\<close>, or in state \<^verbatim>\<open>Played\<close> with the judge on the
  roster, and resumed at a later time \<open>t2\<close>. Then \<^verbatim>\<open>resume\<close> returns, the session is in
  the state it was paused in with the timer of that state armed again, roster, players,
  table and decks as before, and from then on the time limit \<open>T\<close> counts as exceeded
  exactly at the times \<open>t3\<close> with \<open>t3 - t2 \<ge> T - X\<close>: a timer check at such a time
  forces the reveal (\<^verbatim>\<open>Playable\<close>) or the pick of a winner (\<^verbatim>\<open>Played\<close>), a check before
  sends at most warnings. With \<open>X \<le> T\<close>, the first of the checks that follow the resume
  every ten seconds to force the action comes between \<open>T - X\<close> and \<open>T - X\<close> plus ten
  seconds after the resume.
\<close>

theorem pause_resume_keeps_remaining_time:
  assumes "state g = PLAYABLE \<or> (state g = PLAYED \<and> czar g = Some c \<and> c \<in> set (players g))"
  shows "\<exists>gr. resume n ((pause g)\<lparr>clock := t2\<rparr>) = Ok gr
     \<and> state gr = state g
     \<and> turnTimer gr = (state g = PLAYABLE) \<and> winnerTimer gr = (state g = PLAYED)
     \<and> players gr = players g \<and> objs gr = objs g \<and> czar gr = czar g
     \<and> table_question gr = table_question g \<and> table_answer gr = table_answer g
     \<and> decks_answer gr = decks_answer g \<and> decks_question gr = decks_question g
     \<and> timeLimit gr = timeLimit g
     \<and> (\<forall>t3. timeIsUp (gr\<lparr>clock := t3\<rparr>)
              \<longleftrightarrow> t3 - t2 \<ge> timeLimit g - (clock g - roundStarted g))
     \<and> (\<forall>t3 m. state g = PLAYABLE \<and> t3 - t2 \<ge> timeLimit g - (clock g - roundStarted g)
           \<longrightarrow> turnTimerCheck m (gr\<lparr>clock := t3\<rparr>)
                = showEntries m (markInactivePlayers (say SayTimeUp (gr\<lparr>clock := t3\<rparr>))))
     \<and> (\<forall>t3 m. state g = PLAYABLE \<and> t3 - t2 < timeLimit g - (clock g - roundStarted g)
           \<longrightarrow> (\<exists>ms. turnTimerCheck m (gr\<lparr>clock := t3\<rparr>)
                = Ok (gr\<lparr>clock := t3, outbox := outbox gr @ ms\<rparr>)))
     \<and> (\<forall>t3 m. state g = PLAYED \<and> t3 - t2 \<ge> timeLimit g - (clock g - roundStarted g)
           \<longrightarrow> winnerTimerCheck m (gr\<lparr>clock := t3\<rparr>)
                = (case randomIndex (length (table_answer g))
                          (upd c (\<lambda>pl. pl\<lparr>inactiveRounds := js_incr (inactiveRounds pl)\<rparr>)
                             (say SayTimeUpWinner (gr\<lparr>clock := t3\<rparr>))) of
                     (i, g') \<Rightarrow> selectWinner m (NumKey i) None g'))
     \<and> (\<forall>t3 m. state g = PLAYED \<and> t3 - t2 < timeLimit g - (clock g - roundStarted g)
           \<longrightarrow> (\<exists>ms. winnerTimerCheck m (gr\<lparr>clock := t3\<rparr>)
                = Ok (gr\<lparr>clock := t3, outbox := outbox gr @ ms\<rparr>)))
     \<and> (clock g - roundStarted g \<le> timeLimit g
           \<longrightarrow> (\<exists>k\<ge>1. timeIsUp (gr\<lparr>clock := tickTime t2 k\<rparr>)
                  \<and> (\<forall>j. 1 \<le> j \<and> j < k \<longrightarrow> \<not> timeIsUp (gr\<lparr>clock := tickTime t2 j\<rparr>))
                  \<and> timeLimit g - (clock g - roundStarted g) \<le> tickTime t2 k - t2
                  \<and> tickTime t2 k - t2 \<le> timeLimit g - (clock g - roundStarted g) + 10 * 1000))"
proof -
  let ?X = "clock g - roundStarted g"
  define gr where "gr = g\<lparr>pauseState_state := state g, pauseState_elapsed := ?X,
           outbox := outbox g @ [SayNowPaused, SayResumed],
           turnTimer := (state g = PLAYABLE), winnerTimer := (state g = PLAYED),
           clock := t2, roundStarted := t2 - ?X\<rparr>"
  have r: "resume n ((pause g)\<lparr>clock := t2\<rparr>) = Ok gr"
  proof (cases "state g = PLAYABLE")
    case True
    from resume_playable [OF True, of n t2] True show ?thesis
      by (cases g) (simp add: gr_def)
  next
    case False
    with assms have p: "state g = PLAYED" "czar g = Some c" "c \<in> set (players g)" by auto
    from resume_played [OF p, of n t2] p(1) show ?thesis
      by (cases g) (simp add: gr_def)
  qed
  have f: "state gr = state g" "turnTimer gr = (state g = PLAYABLE)"
    "winnerTimer gr = (state g = PLAYED)" "players gr = players g" "objs gr = objs g"
    "czar gr = czar g" "table_question gr = table_question g" "table_answer gr = table_answer g"
    "decks_answer gr = decks_answer g" "decks_question gr = decks_question g"
    "timeLimit gr = timeLimit g"
    by (simp_all add: gr_def timeLimit_def)
  have up: "timeIsUp (gr\<lparr>clock := t3\<rparr>) \<longleftrightarrow> t3 - t2 \<ge> timeLimit g - ?X" for t3
    by (auto simp add: timeIsUp_def gr_def timeLimit_def)
  have a: "turnTimerCheck m (gr\<lparr>clock := t3\<rparr>)
                = showEntries m (markInactivePlayers (say SayTimeUp (gr\<lparr>clock := t3\<rparr>)))"
    if "t3 - t2 \<ge> timeLimit g - ?X" for t3 m
    using that up [of t3] by (intro turnTimerCheck_forced) simp
  have b: "\<exists>ms. turnTimerCheck m (gr\<lparr>clock := t3\<rparr>) = Ok (gr\<lparr>clock := t3, outbox := outbox gr @ ms\<rparr>)"
    if "t3 - t2 < timeLimit g - ?X" for t3 m
  proof -
    from that up [of t3] have "\<not> timeIsUp (gr\<lparr>clock := t3\<rparr>)" by simp
    from turnTimerCheck_waiting [OF this, of m] show ?thesis by simp
  qed
  have c: "winnerTimerCheck m (gr\<lparr>clock := t3\<rparr>)
                = (case randomIndex (length (table_answer g))
                          (upd c (\<lambda>pl. pl\<lparr>inactiveRounds := js_incr (inactiveRounds pl)\<rparr>)
                             (say SayTimeUpWinner (gr\<lparr>clock := t3\<rparr>))) of
                     (i, g') \<Rightarrow> selectWinner m (NumKey i) None g')"
    if "state g = PLAYED" "t3 - t2 \<ge> timeLimit g - ?X" for t3 m
  proof -
    from that assms have cz: "czar (gr\<lparr>clock := t3\<rparr>) = Some c" by (auto simp add: f)
    from that up [of t3] have "timeIsUp (gr\<lparr>clock := t3\<rparr>)" by simp
    from winnerTimerCheck_forced [OF this cz, of m] show ?thesis by (simp add: f)
  qed
  have d: "\<exists>ms. winnerTimerCheck m (gr\<lparr>clock := t3\<rparr>) = Ok (gr\<lparr>clock := t3, outbox := outbox gr @ ms\<rparr>)"
    if "state g = PLAYED" "t3 - t2 < timeLimit g - ?X" for t3 m
  proof -
    from that assms have cz: "czar (gr\<lparr>clock := t3\<rparr>) = Some c" by (auto simp add: f)
    from that up [of t3] have "\<not> timeIsUp (gr\<lparr>clock := t3\<rparr>)" by simp
    from winnerTimerCheck_waiting [OF this cz, of m] show ?thesis by simp
  qed
  have e: "\<exists>k\<ge>1. timeIsUp (gr\<lparr>clock := tickTime t2 k\<rparr>)
                  \<and> (\<forall>j. 1 \<le> j \<and> j < k \<longrightarrow> \<not> timeIsUp (gr\<lparr>clock := tickTime t2 j\<rparr>))
                  \<and> timeLimit g - ?X \<le> tickTime t2 k - t2
                  \<and> tickTime t2 k - t2 \<le> timeLimit g - ?X + 10 * 1000"
    if "?X \<le> timeLimit g"
  proof -
    from that have "0 \<le> timeLimit g - ?X" by simp
    from first_tick [OF this] obtain k where k: "1 \<le> k" "timeLimit g - ?X \<le> 10 * 1000 * int k"
      "10 * 1000 * int k \<le> timeLimit g - ?X + 10 * 1000"
      "\<forall>j. 1 \<le> j \<and> j < k \<longrightarrow> 10 * 1000 * int j < timeLimit g - ?X"
      by blast
    have t: "tickTime t2 j - t2 = 10 * 1000 * int j" for j by (simp add: tickTime_def)
    from k show ?thesis
      by (intro exI [of _ k]) (simp add: up t not_le)
  qed
  from r f up a b c d e show ?thesis
    by (intro exI [of _ gr]) (simp only: simp_thms, blast)
qed


theorem pause_resume_keeps_remaining_time_witness:
  "state (playing\<lparr>clock := 25000\<rparr>) = PLAYABLE
   \<and> clock (playing\<lparr>clock := 25000\<rparr>) - roundStarted (playing\<lparr>clock := 25000\<rparr>)
        \<le> timeLimit (playing\<lparr>clock := 25000\<rparr>)
   \<and> (\<exists>gr. resume 4 ((pause (playing\<lparr>clock := 25000\<rparr>))\<lparr>clock := 100000\<rparr>) = Ok gr
          \<and> state gr = PLAYABLE \<and> turnTimer gr
          \<and> turnTimerCheck 4 (gr\<lparr>clock := 140000\<rparr>)
                = showEntries 4 (markInactivePlayers (say SayTimeUp (gr\<lparr>clock := 140000\<rparr>)))
          \<and> (\<exists>ms. turnTimerCheck 4 (gr\<lparr>clock := 130000\<rparr>)
                = Ok (gr\<lparr>clock := 130000, outbox := outbox gr @ ms\<rparr>))
          \<and> (\<exists>k\<ge>1. timeIsUp (gr\<lparr>clock := tickTime 100000 k\<rparr>)
                  \<and> 35000 \<le> tickTime 100000 k - 100000 \<and> tickTime 100000 k - 100000 \<le> 45000))
   \<and> (state (judging\<lparr>clock := 25000\<rparr>) = PLAYED \<and> czar (judging\<lparr>clock := 25000\<rparr>) = Some 0
        \<and> 0 \<in> set (players (judging\<lparr>clock := 25000\<rparr>)))
   \<and> (\<exists>gr. resume 4 ((pause (judging\<lparr>clock := 25000\<rparr>))\<lparr>clock := 100000\<rparr>) = Ok gr
          \<and> state gr = PLAYED \<and> winnerTimer gr
          \<and> winnerTimerCheck 4 (gr\<lparr>clock := 140000\<rparr>)
                = (case randomIndex (length (table_answer (judging\<lparr>clock := 25000\<rparr>)))
                          (upd 0 (\<lambda>pl. pl\<lparr>inactiveRounds := js_incr (inactiveRounds pl)\<rparr>)
                             (say SayTimeUpWinner (gr\<lparr>clock := 140000\<rparr>))) of
                     (i, g') \<Rightarrow> selectWinner 4 (NumKey i) None g')
          \<and> (\<exists>ms. winnerTimerCheck 4 (gr\<lparr>clock := 130000\<rparr>)
                = Ok (gr\<lparr>clock := 130000, outbox := outbox gr @ ms\<rparr>)))"
proof -
  let ?P = "playing\<lparr>clock := 25000\<rparr>" and ?J = "judging\<lparr>clock := 25000\<rparr>"
  have p: "state ?P = PLAYABLE" "clock ?P = 25000" "roundStarted ?P = 0" "timeLimit ?P = 60000"
    by (simp_all add: playing_def Game_def timeLimit_def)
  have j: "state ?J = PLAYED" "czar ?J = Some 0" "0 \<in> set (players ?J)"
    "clock ?J = 25000" "roundStarted ?J = 0" "timeLimit ?J = 60000"
    by (simp_all add: judging_def playing_def Game_def timeLimit_def)
  have hp: "state ?P = PLAYABLE \<or> (state ?P = PLAYED \<and> czar ?P = Some 0 \<and> 0 \<in> set (players ?P))"
    using p by simp
  have hj: "state ?J = PLAYABLE \<or> (state ?J = PLAYED \<and> czar ?J = Some 0 \<and> 0 \<in> set (players ?J))"
    using j by simp
  have le: "clock ?P - roundStarted ?P \<le> timeLimit ?P" by (simp add: p)
  have first: "\<exists>gr. resume 4 ((pause ?P)\<lparr>clock := 100000\<rparr>) = Ok gr
          \<and> state gr = PLAYABLE \<and> turnTimer gr
          \<and> turnTimerCheck 4 (gr\<lparr>clock := 140000\<rparr>)
                = showEntries 4 (markInactivePlayers (say SayTimeUp (gr\<lparr>clock := 140000\<rparr>)))
          \<and> (\<exists>ms. turnTimerCheck 4 (gr\<lparr>clock := 130000\<rparr>)
                = Ok (gr\<lparr>clock := 130000, outbox := outbox gr @ ms\<rparr>))
          \<and> (\<exists>k\<ge>1. timeIsUp (gr\<lparr>clock := tickTime 100000 k\<rparr>)
                  \<and> 35000 \<le> tickTime 100000 k - 100000 \<and> tickTime 100000 k - 100000 \<le> 45000)"
  proof -
    from pause_resume_keeps_remaining_time [OF hp, of 4 100000] obtain gr where
      r: "resume 4 ((pause ?P)\<lparr>clock := 100000\<rparr>) = Ok gr" "state gr = state ?P"
        "turnTimer gr = (state ?P = PLAYABLE)"
      and a: "\<forall>t3 m. state ?P = PLAYABLE \<and> t3 - 100000 \<ge> timeLimit ?P - (clock ?P - roundStarted ?P)
           \<longrightarrow> turnTimerCheck m (gr\<lparr>clock := t3\<rparr>)
                = showEntries m (markInactivePlayers (say SayTimeUp (gr\<lparr>clock := t3\<rparr>)))"
      and b: "\<forall>t3 m. state ?P = PLAYABLE \<and> t3 - 100000 < timeLimit ?P - (clock ?P - roundStarted ?P)
           \<longrightarrow> (\<exists>ms. turnTimerCheck m (gr\<lparr>clock := t3\<rparr>)
                = Ok (gr\<lparr>clock := t3, outbox := outbox gr @ ms\<rparr>))"
      and e: "clock ?P - roundStarted ?P \<le> timeLimit ?P
           \<longrightarrow> (\<exists>k\<ge>1. timeIsUp (gr\<lparr>clock := tickTime 100000 k\<rparr>)
                  \<and> (\<forall>j. 1 \<le> j \<and> j < k \<longrightarrow> \<not> timeIsUp (gr\<lparr>clock := tickTime 100000 j\<rparr>))
                  \<and> timeLimit ?P - (clock ?P - roundStarted ?P) \<le> tickTime 100000 k - 100000
                  \<and> tickTime 100000 k - 100000 \<le> timeLimit ?P - (clock ?P - roundStarted ?P) + 10 * 1000)"
      by blast
    from a [rule_format, of 140000 4] p
    have 1: "turnTimerCheck 4 (gr\<lparr>clock := 140000\<rparr>)
                = showEntries 4 (markInactivePlayers (say SayTimeUp (gr\<lparr>clock := 140000\<rparr>)))"
      by simp
    from b [rule_format, of 130000 4] p
    have 2: "\<exists>ms. turnTimerCheck 4 (gr\<lparr>clock := 130000\<rparr>)
                = Ok (gr\<lparr>clock := 130000, outbox := outbox gr @ ms\<rparr>)"
      by simp
    from e le p have 3: "\<exists>k\<ge>1. timeIsUp (gr\<lparr>clock := tickTime 100000 k\<rparr>)
                  \<and> 35000 \<le> tickTime 100000 k - 100000 \<and> tickTime 100000 k - 100000 \<le> 45000"
      by auto
    from r p 1 2 3 show ?thesis by auto
  qed
  have second: "\<exists>gr. resume 4 ((pause ?J)\<lparr>clock := 100000\<rparr>) = Ok gr
          \<and> state gr = PLAYED \<and> winnerTimer gr
          \<and> winnerTimerCheck 4 (gr\<lparr>clock := 140000\<rparr>)
                = (case randomIndex (length (table_answer ?J))
                          (upd 0 (\<lambda>pl. pl\<lparr>inactiveRounds := js_incr (inactiveRounds pl)\<rparr>)
                             (say SayTimeUpWinner (gr\<lparr>clock := 140000\<rparr>))) of
                     (i, g') \<Rightarrow> selectWinner 4 (NumKey i) None g')
          \<and> (\<exists>ms. winnerTimerCheck 4 (gr\<lparr>clock := 130000\<rparr>)
                = Ok (gr\<lparr>clock := 130000, outbox := outbox gr @ ms\<rparr>))"
  proof -
    from pause_resume_keeps_remaining_time [OF hj, of 4 100000] obtain gr where
      r: "resume 4 ((pause ?J)\<lparr>clock := 100000\<rparr>) = Ok gr" "state gr = state ?J"
        "winnerTimer gr = (state ?J = PLAYED)"
      and c: "\<forall>t3 m. state ?J = PLAYED \<and> t3 - 100000 \<ge> timeLimit ?J - (clock ?J - roundStarted ?J)
           \<longrightarrow> winnerTimerCheck m (gr\<lparr>clock := t3\<rparr>)
                = (case randomIndex (length (table_answer ?J))
                          (upd 0 (\<lambda>pl. pl\<lparr>inactiveRounds := js_incr (inactiveRounds pl)\<rparr>)
                             (say SayTimeUpWinner (gr\<lparr>clock := t3\<rparr>))) of
                     (i, g') \<Rightarrow> selectWinner m (NumKey i) None g')"
      and d: "\<forall>t3 m. state ?J = PLAYED \<and> t3 - 100000 < timeLimit ?J - (clock ?J - roundStarted ?J)
           \<longrightarrow> (\<exists>ms. winnerTimerCheck m (gr\<lparr>clock := t3\<rparr>)
                = Ok (gr\<lparr>clock := t3, outbox := outbox gr @ ms\<rparr>))"
      by blast
    from c [rule_format, of 140000 4] j
    have 1: "winnerTimerCheck 4 (gr\<lparr>clock := 140000\<rparr>)
                = (case randomIndex (length (table_answer ?J))
                          (upd 0 (\<lambda>pl. pl\<lparr>inactiveRounds := js_incr (inactiveRounds pl)\<rparr>)
                             (say SayTimeUpWinner (gr\<lparr>clock := 140000\<rparr>))) of
                     (i, g') \<Rightarrow> selectWinner 4 (NumKey i) None g')"
      by simp
    from d [rule_format, of 130000 4] j
    have 2: "\<exists>ms. winnerTimerCheck 4 (gr\<lparr>clock := 130000\<rparr>)
                = Ok (gr\<lparr>clock := 130000, outbox := outbox gr @ ms\<rparr>)"
      by simp
    from r j 1 2 show ?thesis by auto
  qed
  from p(1) le first j(1-3) second show ?thesis by blast
qed

subsection \<open>Cleaning up after a round\<close>

lemma samePerson_refl [simp]: "samePerson a a"
  by (simp add: samePerson_def)

lemma samePerson_trans: "samePerson a b \<Longrightarrow> samePerson b c \<Longrightarrow> samePerson a c"
  by (simp add: samePerson_def)

lemma quietly_refl [simp]: "quietly g g"
  by (simp add: quietly_def)

lemma quietly_trans:
  assumes "quietly g1 g2" "quietly g2 g3"
  shows "quietly g1 g3"
proof -
  from assms obtain ms1 ms2 where
    m: "outbox g2 = outbox g1 @ ms1" "\<forall>nk. SayLeft nk \<notin> set ms1"
       "outbox g3 = outbox g2 @ ms2" "\<forall>nk. SayLeft nk \<notin> set ms2"
    by (auto simp add: quietly_def)
  then have "outbox g3 = outbox g1 @ (ms1 @ ms2) \<and> (\<forall>nk. SayLeft nk \<notin> set (ms1 @ ms2))"
    by simp
  then have o: "\<exists>ms. outbox g3 = outbox g1 @ ms \<and> (\<forall>nk. SayLeft nk \<notin> set ms)" by blast
  have p: "samePerson (objs g3 q) (objs g1 q)" for q
    using assms samePerson_trans [of "objs g3 q" "objs g2 q" "objs g1 q"]
    by (simp add: quietly_def)
  from assms o p show ?thesis by (simp add: quietly_def)
qed

lemma removePlayer_in_clean:
  assumes "state g = PLAYED \<or> state g = ROUND_END" "table_answer g = []"
  shows "\<exists>g'. run (Suc (Suc m)) (ReqRemovePlayer p True) g = Ok g'
     \<and> players g' = removeAll p (players g) \<and> idleCounts g' = idleCounts g \<and> quietly g g'"
proof (cases "state g = PLAYED \<and> czar g = Some p")
  case False
  define g' where "g' = (upd p (\<lambda>pl. pl\<lparr>cards := []\<rparr>) g)
      \<lparr>players := removeAll p (players g),
        discards_answer := addToDiscard (cards (objs g p)) (discards_answer g)\<rparr>"
  from False assms have "run (Suc (Suc m)) (ReqRemovePlayer p True) g = Ok g'"
    by (cases g) (auto simp add: removePlayer_body_def Let_def upd_def g'_def)
  moreover have "players g' = removeAll p (players g)" "idleCounts g' = idleCounts g"
    by (simp_all add: g'_def upd_def)
  moreover have "quietly g g'"
    by (simp add: quietly_def g'_def upd_def samePerson_def)
  ultimately show ?thesis by blast
next
  case True
  define g' where "g' = (upd p (\<lambda>pl. pl\<lparr>cards := []\<rparr>) g)
      \<lparr>players := removeAll p (players g),
        discards_answer := addToDiscard (cards (objs g p)) (discards_answer g),
        outbox := outbox g @ [SayCzarFled, SayInvalidWinner],
        rnd := tl (rnd g), winnerTimer := False\<rparr>"
  from True assms have "run (Suc (Suc m)) (ReqRemovePlayer p True) g = Ok g'"
    by (cases g) (auto simp add: removePlayer_body_def selectWinner_body_def randomIndex_def
          arrayGet_def at_def say_def Let_def upd_def g'_def)
  moreover have "players g' = removeAll p (players g)" "idleCounts g' = idleCounts g"
    by (simp_all add: g'_def upd_def)
  moreover have "quietly g g'"
    by (simp add: quietly_def g'_def upd_def samePerson_def)
  ultimately show ?thesis by blast
qed


lemma quietly_isIdle: "quietly g g' \<Longrightarrow> isIdle g' q = isIdle g q"
  by (simp add: quietly_def samePerson_def isIdle_def)

lemma quietly_nick: "quietly g g' \<Longrightarrow> nick (objs g' q) = nick (objs g q)"
  by (simp add: quietly_def samePerson_def)

lemma filter_removeAll_idle:
  "P p \<Longrightarrow> filter (\<lambda>q. \<not> (q \<in> set ps \<and> P q)) (removeAll p xs)
     = filter (\<lambda>q. \<not> (q \<in> set (p # ps) \<and> P q)) xs"
  by (induction xs) auto

lemma cleanPlayers_effect:
  assumes "state g = PLAYED \<or> state g = ROUND_END" "table_answer g = []"
  shows "\<exists>g'. cleanPlayers (run (Suc (Suc m))) ps acc g
            = (acc @ map (\<lambda>p. nick (objs g p)) (filter (isIdle g) ps), Ok g')
     \<and> players g' = filter (\<lambda>q. \<not> (q \<in> set ps \<and> isIdle g q)) (players g)
     \<and> idleCounts g' = fold bump (map (\<lambda>p. nick (objs g p)) (filter (isIdle g) ps)) (idleCounts g)
     \<and> quietly g g'"
  using assms
proof (induction ps arbitrary: g acc)
  case Nil
  then show ?case by simp
next
  case (Cons p ps)
  define g1 where
    "g1 = upd p (\<lambda>pl. pl\<lparr>hasPlayed := False, hasDiscarded := False, isCzar := False\<rparr>) g"
  have q1: "quietly g g1" "players g1 = players g" "idleCounts g1 = idleCounts g"
    by (simp_all add: quietly_def g1_def upd_def samePerson_def)
  have s1: "state g1 = PLAYED \<or> state g1 = ROUND_END" "table_answer g1 = []"
    using Cons.prems q1(1) by (simp_all add: quietly_def)
  have i1: "isIdle g1 q = isIdle g q" for q by (rule quietly_isIdle [OF q1(1)])
  have n1: "nick (objs g1 q) = nick (objs g q)" for q by (rule quietly_nick [OF q1(1)])
  show ?case
  proof (cases "isIdle g p")
    case False
    from Cons.IH [OF s1, of acc] obtain g' where
      r: "cleanPlayers (run (Suc (Suc m))) ps acc g1
            = (acc @ map (\<lambda>p. nick (objs g1 p)) (filter (isIdle g1) ps), Ok g')"
      "players g' = filter (\<lambda>q. \<not> (q \<in> set ps \<and> isIdle g1 q)) (players g1)"
      "idleCounts g' = fold bump (map (\<lambda>p. nick (objs g1 p)) (filter (isIdle g1) ps)) (idleCounts g1)"
      "quietly g1 g'"
      by blast
    have e: "isIdle g1 = isIdle g" "(\<lambda>p. nick (objs g1 p)) = (\<lambda>p. nick (objs g p))"
      using i1 n1 by auto
    from False i1 [of p] have c: "cleanPlayers (run (Suc (Suc m))) (p # ps) acc g
        = cleanPlayers (run (Suc (Suc m))) ps acc g1"
      by (simp add: g1_def [symmetric] isIdle_def Let_def)
    have pl: "filter (\<lambda>q. \<not> (q \<in> set ps \<and> isIdle g q)) (players g)
        = filter (\<lambda>q. \<not> (q \<in> set (p # ps) \<and> isIdle g q)) (players g)"
      using False by (intro filter_cong) auto
    from r c e q1 False pl quietly_trans [OF q1(1) r(4)] show ?thesis
      by (intro exI [of _ g']) simp
  next
    case True
    from removePlayer_in_clean [OF s1, of m p] obtain g2 where
      2: "run (Suc (Suc m)) (ReqRemovePlayer p True) g1 = Ok g2"
      "players g2 = removeAll p (players g1)" "idleCounts g2 = idleCounts g1" "quietly g1 g2"
      by blast
    define g3 where "g3 = g2\<lparr>idleCounts := (idleCounts g2)
                       (nick (objs g2 p) := js_incr (idleCounts g2 (nick (objs g2 p))))\<rparr>"
    have q12: "quietly g g2" by (rule quietly_trans [OF q1(1) 2(4)])
    have q23: "quietly g2 g3" by (simp add: quietly_def g3_def)
    have q3: "quietly g g3" by (rule quietly_trans [OF q12 q23])
    have s3: "state g3 = PLAYED \<or> state g3 = ROUND_END" "table_answer g3 = []"
      using Cons.prems q3 by (simp_all add: quietly_def)
    have e: "isIdle g3 = isIdle g" "(\<lambda>p. nick (objs g3 p)) = (\<lambda>p. nick (objs g p))"
      using quietly_isIdle [OF q3] quietly_nick [OF q3] by auto
    have n2: "nick (objs g2 p) = nick (objs g p)" by (rule quietly_nick [OF q12])
    have ic3: "idleCounts g3 = bump (nick (objs g p)) (idleCounts g)"
      by (simp add: g3_def n2 2 q1 bump_def)
    have pl3: "players g3 = removeAll p (players g)" by (simp add: g3_def 2 q1)
    from Cons.IH [OF s3, of "acc @ [nick (objs g2 p)]"] obtain g' where
      r: "cleanPlayers (run (Suc (Suc m))) ps (acc @ [nick (objs g2 p)]) g3
            = ((acc @ [nick (objs g2 p)]) @ map (\<lambda>p. nick (objs g3 p)) (filter (isIdle g3) ps), Ok g')"
      "players g' = filter (\<lambda>q. \<not> (q \<in> set ps \<and> isIdle g3 q)) (players g3)"
      "idleCounts g' = fold bump (map (\<lambda>p. nick (objs g3 p)) (filter (isIdle g3) ps)) (idleCounts g3)"
      "quietly g3 g'"
      by blast
    from True i1 [of p] 2(1) have c: "cleanPlayers (run (Suc (Suc m))) (p # ps) acc g
        = cleanPlayers (run (Suc (Suc m))) ps (acc @ [nick (objs g2 p)]) g3"
      by (simp add: g1_def [symmetric] g3_def isIdle_def Let_def)
    have pl: "filter (\<lambda>q. \<not> (q \<in> set ps \<and> isIdle g q)) (removeAll p (players g))
        = filter (\<lambda>q. \<not> (q \<in> set (p # ps) \<and> isIdle g q)) (players g)"
      using True by (rule filter_removeAll_idle)
    from r c e True pl pl3 ic3 n2 quietly_trans [OF q3 r(4)] show ?thesis
      by (intro exI [of _ g']) simp
  qed
qed


lemma clean_effect:
  assumes "state g = PLAYED \<or> state g = ROUND_END"
  shows "\<exists>g'. run (Suc (Suc (Suc m))) ReqClean g = Ok g'
    \<and> state g' = STARTED \<and> table_answer g' = [] \<and> table_question g' = None
    \<and> players g' = filter (\<lambda>q. \<not> isIdle g q) (players g)
    \<and> idleCounts g' = fold bump (map (\<lambda>p. nick (objs g p)) (filter (isIdle g) (players g))) (idleCounts g)
    \<and> ledger g' = ledger g \<and> czar g' = czar g \<and> round g' = round g \<and> pointLimit g' = pointLimit g
    \<and> decks_question g' = decks_question g \<and> decks_answer g' = decks_answer g
    \<and> (\<forall>q. samePerson (objs g' q) (objs g q))
    \<and> (\<exists>ms. outbox g' = outbox g @ ms \<and> (\<forall>nk. SayLeft nk \<notin> set ms))"
proof -
  define g0 where "g0 = g\<lparr>discards_question :=
                   (case table_question g of
                      None \<Rightarrow> discards_question g
                    | Some q \<Rightarrow> addToDiscard [q] (discards_question g)),
                 table_question := None,
                 discards_answer := addToDiscard (concat (table_answer g)) (discards_answer g),
                 table_answer := []\<rparr>"
  have f0: "state g0 = state g" "table_answer g0 = []" "table_question g0 = None"
    "players g0 = players g" "objs g0 = objs g" "idleCounts g0 = idleCounts g"
    "ledger g0 = ledger g" "czar g0 = czar g" "round g0 = round g" "pointLimit g0 = pointLimit g"
    "decks_question g0 = decks_question g" "decks_answer g0 = decks_answer g"
    "outbox g0 = outbox g"
    by (simp_all add: g0_def)
  have s0: "state g0 = PLAYED \<or> state g0 = ROUND_END" using assms f0 by simp
  from cleanPlayers_effect [OF s0 f0(2), of m "players g0" "[]"] obtain g1 where
    1: "cleanPlayers (run (Suc (Suc m))) (players g0) [] g0
            = (map (\<lambda>p. nick (objs g0 p)) (filter (isIdle g0) (players g0)), Ok g1)"
    "players g1 = filter (\<lambda>q. \<not> (q \<in> set (players g0) \<and> isIdle g0 q)) (players g0)"
    "idleCounts g1 = fold bump (map (\<lambda>p. nick (objs g0 p)) (filter (isIdle g0) (players g0))) (idleCounts g0)"
    "quietly g0 g1"
    by auto
  let ?nicks = "map (\<lambda>p. nick (objs g0 p)) (filter (isIdle g0) (players g0))"
  define g' where "g' = (if length ?nicks > 0 then say (SayRemovedInactive ?nicks) g1 else g1)
                   \<lparr>state := STARTED\<rparr>"
  have r: "run (Suc (Suc (Suc m))) ReqClean g = Ok g'"
    using 1(1) by (simp add: clean_body_def Let_def g0_def [symmetric] g'_def f0(4))
  have i0: "isIdle g0 = isIdle g" by (intro ext) (simp add: isIdle_def f0)
  have pl: "players g' = filter (\<lambda>q. \<not> isIdle g q) (players g)"
  proof -
    have "players g' = players g1" by (simp add: g'_def say_def)
    also have "\<dots> = filter (\<lambda>q. \<not> (q \<in> set (players g) \<and> isIdle g q)) (players g)"
      by (simp add: 1(2) f0 i0)
    also have "\<dots> = filter (\<lambda>q. \<not> isIdle g q) (players g)"
      by (intro filter_cong) auto
    finally show ?thesis .
  qed
  obtain ms where ms: "outbox g1 = outbox g @ ms" "\<forall>nk. SayLeft nk \<notin> set ms"
    using 1(4) by (auto simp add: quietly_def f0)
  have "outbox g' = outbox g @ (ms @ (if length ?nicks > 0 then [SayRemovedInactive ?nicks] else []))
      \<and> (\<forall>nk. SayLeft nk \<notin> set (ms @ (if length ?nicks > 0 then [SayRemovedInactive ?nicks] else [])))"
    using ms by (simp add: g'_def say_def)
  then have ob: "\<exists>ms. outbox g' = outbox g @ ms \<and> (\<forall>nk. SayLeft nk \<notin> set ms)" by blast
  have rest: "state g' = STARTED" "table_answer g' = []" "table_question g' = None"
    "idleCounts g' = fold bump (map (\<lambda>p. nick (objs g p)) (filter (isIdle g) (players g))) (idleCounts g)"
    "ledger g' = ledger g" "czar g' = czar g" "round g' = round g" "pointLimit g' = pointLimit g"
    "decks_question g' = decks_question g" "decks_answer g' = decks_answer g"
    "\<forall>q. samePerson (objs g' q) (objs g q)"
    using 1(3,4) by (simp_all add: g'_def say_def quietly_def f0 i0)
  from r pl ob rest show ?thesis by (intro exI [of _ g']) simp
qed

lemma js_incr_pow: "(js_incr ^^ c) (Num k) = Num (k + int c)"
  by (induction c) simp_all

lemma fold_bump_apply:
  "(fold bump nks ic) nk = (js_incr ^^ (length (filter (\<lambda>x. x = nk) nks))) (ic nk)"
proof (induction nks arbitrary: ic)
  case Nil then show ?case by simp
next
  case (Cons a nks)
  have "fold bump (a # nks) ic nk = fold bump nks (bump a ic) nk" by simp
  also have "\<dots> = (js_incr ^^ (length (filter (\<lambda>x. x = nk) nks))) (bump a ic nk)"
    by (rule Cons.IH)
  also have "\<dots> = (js_incr ^^ (length (filter (\<lambda>x. x = nk) (a # nks)))) (ic nk)"
    by (cases "a = nk") (simp_all add: bump_def funpow_swap1)
  finally show ?case .
qed

text \<open>
  When \<^verbatim>\<open>clean\<close> runs at the end of a round (state \<^verbatim>\<open>Played\<close>, from \<^verbatim>\<open>showEntries\<close>, or
  \<^verbatim>\<open>RoundEnd\<close>, from \<^verbatim>\<open>selectWinner\<close>), it returns; the roster afterwards is the roster
  without the players whose inactive-round counter is at least 1; none of the messages
  sent announces a player as having left; and an idle count that is a number under a
  nick afterwards is that number plus the number of removed players who bear that nick
  at the time, one for each.
\<close>

lemma clean_idle_players:
  assumes "state g = PLAYED \<or> state g = ROUND_END" and "3 \<le> n"
  shows "\<exists>g' ms. clean n g = Ok g'
     \<and> players g' = filter (\<lambda>p. \<not> isIdle g p) (players g)
     \<and> outbox g' = outbox g @ ms \<and> (\<forall>nk. SayLeft nk \<notin> set ms)
     \<and> (\<forall>nk k. idleCounts g nk = Num k \<longrightarrow>
           idleCounts g' nk
             = Num (k + int (length (filter (\<lambda>p. isIdle g p \<and> nick (objs g p) = nk) (players g)))))"
proof -
  from assms(2) obtain m where n: "n = Suc (Suc (Suc m))"
    by (metis add_Suc_right le_Suc_ex numeral_3_eq_3 plus_nat.simps(2))
  from clean_effect [OF assms(1), of m] obtain g' ms where
    r: "run (Suc (Suc (Suc m))) ReqClean g = Ok g'"
    "players g' = filter (\<lambda>q. \<not> isIdle g q) (players g)"
    "idleCounts g' = fold bump (map (\<lambda>p. nick (objs g p)) (filter (isIdle g) (players g))) (idleCounts g)"
    "outbox g' = outbox g @ ms" "\<forall>nk. SayLeft nk \<notin> set ms"
    by blast
  have c: "idleCounts g' nk
             = Num (k + int (length (filter (\<lambda>p. isIdle g p \<and> nick (objs g p) = nk) (players g))))"
    if "idleCounts g nk = Num k" for nk k
  proof -
    have "length (filter (\<lambda>x. x = nk) (map (\<lambda>p. nick (objs g p)) (filter (isIdle g) (players g))))
        = length (filter (\<lambda>p. isIdle g p \<and> nick (objs g p) = nk) (players g))"
      by (simp add: filter_map o_def)
    with that show ?thesis by (simp add: r(3) fold_bump_apply js_incr_pow)
  qed
  from r c show ?thesis
    by (intro exI [of _ g'] exI [of _ ms]) (simp add: clean_def n)
qed

lemma roundOver_fields:
  "state roundOver = ROUND_END" "players roundOver = [0, 1, 2]"
  "idleCounts roundOver ''cy'' = Num 0" "idleCounts roundOver ''bob'' = Num 0"
  "filter (\<lambda>p. \<not> isIdle roundOver p) [0, 1, 2] = [0, 1]"
  "filter (\<lambda>p. isIdle roundOver p \<and> nick (objs roundOver p) = ''cy'') [0, 1, 2] = [2]"
  "filter (\<lambda>p. isIdle roundOver p \<and> nick (objs roundOver p) = ''bob'') [0, 1, 2] = []"
  by (simp_all add: roundOver_def judging_def playing_def Game_def Player_def isIdle_def)

lemma clean_idle_players_roundOver:
  "(state roundOver = PLAYED \<or> state roundOver = ROUND_END) \<and> (3::nat) \<le> 3
   \<and> idleCounts roundOver ''cy'' = Num 0 \<and> idleCounts roundOver ''bob'' = Num 0
   \<and> (\<exists>g'. clean 3 roundOver = Ok g' \<and> players g' = [0, 1]
         \<and> idleCounts g' ''cy'' = Num 1 \<and> idleCounts g' ''bob'' = Num 0)"
proof -
  have s: "state roundOver = PLAYED \<or> state roundOver = ROUND_END"
    by (simp add: roundOver_fields)
  from clean_idle_players [OF s, of 3] obtain g' where
    r: "clean 3 roundOver = Ok g'"
    "players g' = filter (\<lambda>p. \<not> isIdle roundOver p) (players roundOver)"
    "\<forall>nk k. idleCounts roundOver nk = Num k \<longrightarrow>
           idleCounts g' nk
             = Num (k + int (length (filter (\<lambda>p. isIdle roundOver p \<and> nick (objs roundOver p) = nk)
                                        (players roundOver))))"
    by auto
  from r(3) [rule_format, OF roundOver_fields(3)] have "idleCounts g' ''cy'' = Num 1"
    by (simp only: roundOver_fields) simp
  moreover from r(3) [rule_format, OF roundOver_fields(4)] have "idleCounts g' ''bob'' = Num 0"
    by (simp only: roundOver_fields) simp
  moreover from r(2) have "players g' = [0, 1]" by (simp only: roundOver_fields)
  ultimately show ?thesis using s r(1) roundOver_fields(3,4) by auto
qed

text \<open>
  C5 at a removed player who has changed nick. The third player of \<^verbatim>\<open>renamedIdle\<close> joined
  as \<open>cy\<close>, which is the nick the idle count \<open>0\<close> was stored under, is now called \<open>cyd\<close>
  and has one inactive round. \<^verbatim>\<open>clean\<close> removes the player from the roster and increments
  \<^verbatim>\<open>idleCounts[player.nick]\<close>: the count under \<open>cy\<close> is \<open>0\<close> as before, and under \<open>cyd\<close>,
  where nothing was stored, the increment leaves \<^verbatim>\<open>NaN\<close>.
\<close>

theorem clean_renamed_player_idle_count:
  "state renamedIdle = ROUND_END \<and> players renamedIdle = [0, 1, 2]
   \<and> nick (objs renamedIdle 2) = ''cyd'' \<and> counterOf 2 renamedIdle = Num 1
   \<and> idleCountOf ''cy'' renamedIdle = Num 0 \<and> idleCountOf ''cyd'' renamedIdle = Undefined
   \<and> map_option players (returned (clean 3 renamedIdle)) = Some [0, 1]
   \<and> map_option (idleCountOf ''cy'') (returned (clean 3 renamedIdle)) = Some (Num 0)
   \<and> map_option (idleCountOf ''cyd'') (returned (clean 3 renamedIdle)) = Some NaN"
  by code_simp

subsection \<open>Selecting the winner\<close>

lemma andThen_Ok:
  "andThen x f = Ok g' \<Longrightarrow> \<exists>g1. x = Ok g1 \<and> f g1 = Ok g'"
  by (cases x) simp_all

lemma nextRound_frame:
  assumes "nextRound g = Ok g'"
  shows "(\<forall>p. points (objs g' p) = points (objs g p)) \<and> ledger g' = ledger g
     \<and> (table_answer g' = table_answer g \<or> table_answer g' = [])
     \<and> (state g' = PLAYABLE \<or> state g' = WAITING \<or> state g' = STOPPED)
     \<and> (state g' = PLAYABLE \<longrightarrow> table_question g' \<noteq> None \<and> round g' = round g + 1)
     \<and> (state g' \<noteq> PLAYABLE \<longrightarrow> table_question g' = table_question g \<or> table_question g' = None)"
proof -
  let ?g = "g\<lparr>stopTimeout := False\<rparr>"
  let ?w = "if pointLimit ?g > 0
            then find (\<lambda>p. points (objs ?g p) = pointLimit ?g) (players ?g) else None"
  show ?thesis
  proof (cases ?w)
    case (Some w)
    with assms have "g' = stop None True (say (SayPointLimit (nick (objs ?g w)) (pointLimit ?g)) ?g)"
      by (simp add: nextRound_def Let_def)
    then show ?thesis by (simp add: stop_fields say_def)
  next
    case None
    show ?thesis
    proof (cases "length (players g) < 3")
      case True
      with assms None have "g' = (say SayNotEnoughPlayers ?g)\<lparr>state := WAITING, stopTimeout := True\<rparr>"
        by (simp add: nextRound_def Let_def)
      then show ?thesis by (simp add: say_def)
    next
      case False
      with assms None have
        "andThen (setCzar (g\<lparr>stopTimeout := False, round := round g + 1\<rparr>)) (\<lambda>g.
           andThen (deal g) (\<lambda>g.
           andThen (playQuestion
                  (say (SayRound (round g)
                          (case czar g of Some c \<Rightarrow> nick (objs g c) | None \<Rightarrow> [])) g)) (\<lambda>g.
           Ok ((fold showCards (filter (\<lambda>p. \<not> isCzar (objs g p)) (players g)) g)
             \<lparr>state := PLAYABLE\<rparr>)))) = Ok g'"
        by (simp add: nextRound_def Let_def)
      then have r: "andThen (setCzar (g\<lparr>stopTimeout := False, round := round g + 1\<rparr>)) (\<lambda>g.
           andThen (deal g) (\<lambda>g.
           andThen (playQuestion
                  (say (SayRound (round g)
                          (case czar g of Some c \<Rightarrow> nick (objs g c) | None \<Rightarrow> [])) g)) (\<lambda>g.
           Ok ((fold showCards (filter (\<lambda>p. \<not> isCzar (objs g p)) (players g)) g)
             \<lparr>state := PLAYABLE\<rparr>)))) = Ok g'" .
      from andThen_Ok [OF r] obtain g2 where
        2: "setCzar (g\<lparr>stopTimeout := False, round := round g + 1\<rparr>) = Ok g2"
        and r2: "andThen (deal g2) (\<lambda>g.
           andThen (playQuestion
                  (say (SayRound (round g)
                          (case czar g of Some c \<Rightarrow> nick (objs g c) | None \<Rightarrow> [])) g)) (\<lambda>g.
           Ok ((fold showCards (filter (\<lambda>p. \<not> isCzar (objs g p)) (players g)) g)
             \<lparr>state := PLAYABLE\<rparr>))) = Ok g'"
        by blast
      from andThen_Ok [OF r2] obtain g3 where
        3: "deal g2 = Ok g3"
        and r3: "andThen (playQuestion
                  (say (SayRound (round g3)
                          (case czar g3 of Some c \<Rightarrow> nick (objs g3 c) | None \<Rightarrow> [])) g3)) (\<lambda>g.
           Ok ((fold showCards (filter (\<lambda>p. \<not> isCzar (objs g p)) (players g)) g)
             \<lparr>state := PLAYABLE\<rparr>)) = Ok g'"
        by blast
      from andThen_Ok [OF r3] obtain g4 where
        4: "playQuestion (say (SayRound (round g3)
                 (case czar g3 of Some c \<Rightarrow> nick (objs g3 c) | None \<Rightarrow> [])) g3) = Ok g4"
        and 5: "g' = (fold showCards (filter (\<lambda>p. \<not> isCzar (objs g4 p)) (players g4)) g4)
                     \<lparr>state := PLAYABLE\<rparr>"
        by auto
      from 5 have st: "state g' = PLAYABLE" by simp
      have a2: "points (objs g2 p) = points (objs g p)" "ledger g2 = ledger g"
        "table_answer g2 = table_answer g" "round g2 = round g + 1" for p
        using 2 by (auto simp add: setCzar_def Let_def upd_def split: option.splits)
      have a3: "points (objs g3 p) = points (objs g2 p)" "ledger g3 = ledger g2"
        "table_answer g3 = table_answer g2" "round g3 = round g2" for p
        using deal_each_frame [OF 3 [unfolded deal_def]]
          sameButCards_fields [OF deal_each_objs [OF 3 [unfolded deal_def], of p]]
        by simp_all
      have o4: "outcomeGame (playQuestion (say (SayRound (round g3)
                 (case czar g3 of Some c \<Rightarrow> nick (objs g3 c) | None \<Rightarrow> [])) g3)) = Some g4"
        using 4 by simp
      have a4: "points (objs g4 p) = points (objs g3 p)" "ledger g4 = ledger g3"
        "table_answer g4 = table_answer g3" "round g4 = round g3" "table_question g4 \<noteq> None" for p
        using playQuestion_frame [OF 4] sameButCards_fields [OF conjunct2 [OF playQuestion_ids [OF o4, of p]]]
        by (simp_all add: say_def)
      have a5: "points (objs g' p) = points (objs g4 p)" "ledger g' = ledger g4"
        "table_answer g' = table_answer g4" "round g' = round g4"
        "table_question g' = table_question g4" for p
        using 5 by (simp_all add: fold_showCards)
      from st a2 a3 a4 a5 show ?thesis by simp
    qed
  qed
qed


lemma find_upt_Some: "find P [0..<n] = Some k \<Longrightarrow> k < n \<and> P k"
proof -
  assume "find P [0..<n] = Some k"
  then obtain i where "i < length [0..<n]" "P ([0..<n] ! i)" "k = [0..<n] ! i"
    unfolding find_Some_iff by blast
  then show ?thesis by simp
qed

lemma selectWinner_effect:
  assumes "state g = PLAYED" and "pl = None \<or> pl = czar g"
    and "arrayGet (table_answer g) i = Element (c # cs)" and "owner c = Some w"
    and "find (\<lambda>k. e_player (ledger g ! k) = w) [0..<length (ledger g)] = Some k"
    and "table_question g = Some q"
  shows "\<exists>g1. selectWinner (Suc (Suc (Suc (Suc m)))) i pl g = nextRound g1
     \<and> state g1 = STARTED \<and> table_answer g1 = [] \<and> table_question g1 = None
     \<and> points (objs g1 w) = points (objs g w) + 1
     \<and> (\<forall>p. p \<noteq> w \<longrightarrow> points (objs g1 p) = points (objs g p))
     \<and> ledger g1 = (ledger g)[k := (ledger g ! k)\<lparr>e_points := points (objs g w) + 1\<rparr>]
     \<and> round g1 = round g \<and> pointLimit g1 = pointLimit g
     \<and> players g1 = filter (\<lambda>p. \<not> isIdle g p) (players g)
     \<and> idleCounts g1 = fold bump (map (\<lambda>p. nick (objs g p)) (filter (isIdle g) (players g)))
                          (idleCounts g)"
proof -
  define gU where "gU = upd w (\<lambda>pl. pl\<lparr>points := points pl + 1\<rparr>)
                          (g\<lparr>winnerTimer := False, state := ROUND_END\<rparr>)"
  define gL where "gL = gU\<lparr>ledger := (ledger gU)[k := (ledger gU ! k)\<lparr>e_points := points (objs gU w)\<rparr>]\<rparr>"
  define G2 where "G2 = say (SayWinner (nick (objs gL w)) q (c # cs) (points (objs gL w))) gL"
  have fU: "ledger gU = ledger g" "table_question gU = Some q"
    by (simp_all add: gU_def upd_def assms)
  have no: "\<not> (pl \<noteq> None \<and> pl \<noteq> czar g)" using assms(2) by blast
  have "selectWinner (Suc (Suc (Suc (Suc m)))) i pl g
      = andThen (run (Suc (Suc (Suc m))) ReqClean G2) nextRound"
    using assms(1,3,4,5,6) no
    by (cases pl)
       (simp_all add: selectWinner_def selectWinner_body_def Let_def G2_def gL_def gU_def
          upd_def say_def)
  moreover have s2: "state G2 = PLAYED \<or> state G2 = ROUND_END"
    by (simp add: G2_def gL_def gU_def say_def upd_def)
  from clean_effect [OF s2, of m] obtain g1 where
    1: "run (Suc (Suc (Suc m))) ReqClean G2 = Ok g1"
    "state g1 = STARTED" "table_answer g1 = []" "table_question g1 = None"
    "players g1 = filter (\<lambda>q. \<not> isIdle G2 q) (players G2)"
    "idleCounts g1 = fold bump (map (\<lambda>p. nick (objs G2 p)) (filter (isIdle G2) (players G2))) (idleCounts G2)"
    "ledger g1 = ledger G2" "round g1 = round G2" "pointLimit g1 = pointLimit G2"
    "\<forall>q. samePerson (objs g1 q) (objs G2 q)"
    by blast
  have f2: "players G2 = players g" "idleCounts G2 = idleCounts g" "round G2 = round g"
    "pointLimit G2 = pointLimit g"
    "ledger G2 = (ledger g)[k := (ledger g ! k)\<lparr>e_points := points (objs g w) + 1\<rparr>]"
    "points (objs G2 w) = points (objs g w) + 1"
    by (simp_all add: G2_def gL_def gU_def say_def upd_def)
  have o2: "p \<noteq> w \<Longrightarrow> points (objs G2 p) = points (objs g p)" for p
    by (simp add: G2_def gL_def gU_def say_def upd_def)
  have i2: "isIdle G2 = isIdle g" "(\<lambda>p. nick (objs G2 p)) = (\<lambda>p. nick (objs g p))"
  proof -
    have "isIdle G2 p = isIdle g p" for p
      by (cases "p = w") (simp_all add: isIdle_def G2_def gL_def gU_def say_def upd_def)
    then show "isIdle G2 = isIdle g" by (intro ext)
    have "nick (objs G2 p) = nick (objs g p)" for p
      by (cases "p = w") (simp_all add: G2_def gL_def gU_def say_def upd_def)
    then show "(\<lambda>p. nick (objs G2 p)) = (\<lambda>p. nick (objs g p))" by (intro ext)
  qed
  have p1: "points (objs g1 p) = points (objs G2 p)" for p
    using 1(10) by (simp add: samePerson_def)
  from 1 f2 o2 i2 p1 have
    "state g1 = STARTED \<and> table_answer g1 = [] \<and> table_question g1 = None
     \<and> points (objs g1 w) = points (objs g w) + 1
     \<and> (\<forall>p. p \<noteq> w \<longrightarrow> points (objs g1 p) = points (objs g p))
     \<and> ledger g1 = (ledger g)[k := (ledger g ! k)\<lparr>e_points := points (objs g w) + 1\<rparr>]
     \<and> round g1 = round g \<and> pointLimit g1 = pointLimit g
     \<and> players g1 = filter (\<lambda>p. \<not> isIdle g p) (players g)
     \<and> idleCounts g1 = fold bump (map (\<lambda>p. nick (objs g p)) (filter (isIdle g) (players g)))
                          (idleCounts g)"
    by simp
  moreover note 1(1)
  ultimately show ?thesis by (intro exI [of _ g1]) simp
qed

text \<open>
  C2, as the code has it. In state \<^verbatim>\<open>Played\<close> with an active prompt, let the judge (or a
  call from within the session) select an index under which the table holds a group, let
  the first card of that group have an owner, and let the score ledger hold an entry
  that refers to this owner. Then \<^verbatim>\<open>selectWinner\<close> adds exactly one point to the score of
  the owner and to no other score, writes the score into the ledger entry, cleans up,
  which leaves a table with no groups and no prompt in state \<^verbatim>\<open>Started\<close>, and goes on
  with \<^verbatim>\<open>nextRound\<close> from there. Whenever \<^verbatim>\<open>nextRound\<close> returns, the owner still has the
  point and the table still has no groups; the session is \<^verbatim>\<open>Playable\<close> with the next round
  number and the prompt of the new round on the table, or it is \<^verbatim>\<open>Waiting\<close> or \<^verbatim>\<open>Stopped\<close>
  with no prompt. The owner of a card on the table has no ledger entry after leaving and
  joining again, which makes a new player object; nothing is stated for that call.
\<close>

theorem selectWinner_awards_point:
  assumes "state g = PLAYED" and "pl = None \<or> pl = czar g"
    and "arrayGet (table_answer g) i = Element (c # cs)" and "owner c = Some w"
    and "find (\<lambda>k. e_player (ledger g ! k) = w) [0..<length (ledger g)] = Some k"
    and "table_question g = Some q" and "4 \<le> n"
  shows "\<exists>g1. selectWinner n i pl g = nextRound g1
      \<and> state g1 = STARTED \<and> table_answer g1 = [] \<and> table_question g1 = None
      \<and> points (objs g1 w) = points (objs g w) + 1
      \<and> (\<forall>p. p \<noteq> w \<longrightarrow> points (objs g1 p) = points (objs g p))
      \<and> e_points (ledger g1 ! k) = points (objs g w) + 1 \<and> e_player (ledger g1 ! k) = w
      \<and> (\<forall>g'. nextRound g1 = Ok g' \<longrightarrow>
            points (objs g' w) = points (objs g w) + 1
          \<and> (\<forall>p. p \<noteq> w \<longrightarrow> points (objs g' p) = points (objs g p))
          \<and> e_points (ledger g' ! k) = points (objs g w) + 1
          \<and> table_answer g' = []
          \<and> (state g' = PLAYABLE \<or> state g' = WAITING \<or> state g' = STOPPED)
          \<and> (state g' = PLAYABLE \<longrightarrow> table_question g' \<noteq> None \<and> round g' = round g + 1)
          \<and> (state g' \<noteq> PLAYABLE \<longrightarrow> table_question g' = None))"
proof -
  define m where "m = n - 4"
  from assms(7) have n: "n = Suc (Suc (Suc (Suc m)))"
    by (simp add: m_def)
  from find_upt_Some [OF assms(5)] have k: "k < length (ledger g)" "e_player (ledger g ! k) = w"
    by simp_all
  from selectWinner_effect [OF assms(1-6), of m] obtain g1 where
    1: "selectWinner n i pl g = nextRound g1"
    "state g1 = STARTED" "table_answer g1 = []" "table_question g1 = None"
    "points (objs g1 w) = points (objs g w) + 1"
    "\<forall>p. p \<noteq> w \<longrightarrow> points (objs g1 p) = points (objs g p)"
    "ledger g1 = (ledger g)[k := (ledger g ! k)\<lparr>e_points := points (objs g w) + 1\<rparr>]"
    "round g1 = round g"
    unfolding n by blast
  have l: "e_points (ledger g1 ! k) = points (objs g w) + 1" "e_player (ledger g1 ! k) = w"
    using k by (simp_all add: 1(7))
  have after: "points (objs g' w) = points (objs g w) + 1
          \<and> (\<forall>p. p \<noteq> w \<longrightarrow> points (objs g' p) = points (objs g p))
          \<and> e_points (ledger g' ! k) = points (objs g w) + 1
          \<and> table_answer g' = []
          \<and> (state g' = PLAYABLE \<or> state g' = WAITING \<or> state g' = STOPPED)
          \<and> (state g' = PLAYABLE \<longrightarrow> table_question g' \<noteq> None \<and> round g' = round g + 1)
          \<and> (state g' \<noteq> PLAYABLE \<longrightarrow> table_question g' = None)"
    if "nextRound g1 = Ok g'" for g'
  proof -
    from nextRound_frame [OF that] have
      f: "\<forall>p. points (objs g' p) = points (objs g1 p)" "ledger g' = ledger g1"
      "table_answer g' = table_answer g1 \<or> table_answer g' = []"
      "state g' = PLAYABLE \<or> state g' = WAITING \<or> state g' = STOPPED"
      "state g' = PLAYABLE \<longrightarrow> table_question g' \<noteq> None \<and> round g' = round g1 + 1"
      "state g' \<noteq> PLAYABLE \<longrightarrow> table_question g' = table_question g1 \<or> table_question g' = None"
      by simp_all
    show ?thesis
      using f 1(3-6,8) l by simp
  qed
  then have A: "\<forall>g'. nextRound g1 = Ok g' \<longrightarrow>
            points (objs g' w) = points (objs g w) + 1
          \<and> (\<forall>p. p \<noteq> w \<longrightarrow> points (objs g' p) = points (objs g p))
          \<and> e_points (ledger g' ! k) = points (objs g w) + 1
          \<and> table_answer g' = []
          \<and> (state g' = PLAYABLE \<or> state g' = WAITING \<or> state g' = STOPPED)
          \<and> (state g' = PLAYABLE \<longrightarrow> table_question g' \<noteq> None \<and> round g' = round g + 1)
          \<and> (state g' \<noteq> PLAYABLE \<longrightarrow> table_question g' = None)"
    by (intro allI impI)
  show ?thesis
    using 1(1-6) l A by (intro exI [of _ g1]) (simp only: simp_thms)
qed


theorem selectWinner_awards_point_witness:
  "state judging = PLAYED \<and> (Some 0 = None \<or> Some 0 = czar judging)
   \<and> arrayGet (table_answer judging) (WordKey ''1'') = Element [(aCard ''y'')\<lparr>owner := Some 2\<rparr>]
   \<and> owner ((aCard ''y'')\<lparr>owner := Some 2\<rparr>) = Some 2
   \<and> find (\<lambda>k. e_player (ledger judging ! k) = 2) [0..<length (ledger judging)] = Some 2
   \<and> table_question judging = Some (qCard ''q'' 1 0) \<and> (4::nat) \<le> 4
   \<and> (\<exists>g'. selectWinner 4 (WordKey ''1'') (Some 0) judging = Ok g'
         \<and> points (objs g' 2) = points (objs judging 2) + 1
         \<and> e_points (ledger g' ! 2) = points (objs judging 2) + 1
         \<and> table_answer g' = []
         \<and> (state g' = PLAYABLE \<or> state g' = WAITING \<or> state g' = STOPPED))"
proof -
  have h: "state judging = PLAYED" "Some 0 = None \<or> Some 0 = czar judging"
    "arrayGet (table_answer judging) (WordKey ''1'') = Element [(aCard ''y'')\<lparr>owner := Some 2\<rparr>]"
    "owner ((aCard ''y'')\<lparr>owner := Some 2\<rparr>) = Some 2"
    "find (\<lambda>k. e_player (ledger judging ! k) = 2) [0..<length (ledger judging)] = Some 2"
    "table_question judging = Some (qCard ''q'' 1 0)" "(4::nat) \<le> 4"
    by code_simp+
  have "returned (selectWinner 4 (WordKey ''1'') (Some 0) judging) \<noteq> None" by code_simp
  then obtain g' where r: "selectWinner 4 (WordKey ''1'') (Some 0) judging = Ok g'"
    by (cases "selectWinner 4 (WordKey ''1'') (Some 0) judging") simp_all
  from selectWinner_awards_point [OF h] obtain g1 where
    1: "selectWinner 4 (WordKey ''1'') (Some 0) judging = nextRound g1"
    and 2: "\<forall>g'. nextRound g1 = Ok g' \<longrightarrow>
            points (objs g' 2) = points (objs judging 2) + 1
          \<and> (\<forall>p. p \<noteq> 2 \<longrightarrow> points (objs g' p) = points (objs judging p))
          \<and> e_points (ledger g' ! 2) = points (objs judging 2) + 1
          \<and> table_answer g' = []
          \<and> (state g' = PLAYABLE \<or> state g' = WAITING \<or> state g' = STOPPED)
          \<and> (state g' = PLAYABLE \<longrightarrow> table_question g' \<noteq> None \<and> round g' = round judging + 1)
          \<and> (state g' \<noteq> PLAYABLE \<longrightarrow> table_question g' = None)"
    by blast
  from 1 r have "nextRound g1 = Ok g'" by simp
  with 2 have "points (objs g' 2) = points (objs judging 2) + 1
      \<and> e_points (ledger g' ! 2) = points (objs judging 2) + 1
      \<and> table_answer g' = []
      \<and> (state g' = PLAYABLE \<or> state g' = WAITING \<or> state g' = STOPPED)"
    by blast
  with r h show ?thesis by blast
qed

text \<open>
  C2 as stated fails on the prompt: the judge of \<^verbatim>\<open>judging\<close> selects entry 0, the call
  returns, and the session it returns is \<^verbatim>\<open>Playable\<close> with no groups on the table and the
  prompt of the new round, \<open>q2\<close>, active.
\<close>

theorem selectWinner_new_prompt_counterexample:
  "state judging = PLAYED \<and> czar judging = Some 0
   \<and> arrayGet (table_answer judging) (WordKey ''0'') = Element [(aCard ''x'')\<lparr>owner := Some 1\<rparr>]
   \<and> map_option state (returned (selectWinner 4 (WordKey ''0'') (Some 0) judging)) = Some PLAYABLE
   \<and> map_option table_answer (returned (selectWinner 4 (WordKey ''0'') (Some 0) judging)) = Some []
   \<and> map_option table_question (returned (selectWinner 4 (WordKey ''0'') (Some 0) judging))
        = Some (Some (qCard ''q2'' 1 0))"
  by code_simp

text \<open>
  The ledger entry that the statement on \<^verbatim>\<open>selectWinner\<close> asks for is there for the player
  object that \<^verbatim>\<open>addPlayer\<close> has put on the roster: a new entry is made for it, or the entry of its nick
  and host is made to refer to it.
\<close>

lemma find_upt_exists: "k < n \<Longrightarrow> P k \<Longrightarrow> \<exists>j. find P [0..<n] = Some j"
  by (cases "find P [0..<n]") (auto simp add: find_None_iff)

lemma addPlayer_ledger:
  assumes "addPlayer p g = (Some p', Ok g')"
  shows "\<exists>k. find (\<lambda>k. e_player (ledger g' ! k) = p) [0..<length (ledger g')] = Some k"
proof -
  let ?f = "find (\<lambda>k. e_nick (ledger g ! k) = nick (objs g p)
                             \<and> e_hostname (ledger g ! k) = hostname (objs g p))
                      [0..<length (ledger g)]"
  from assms have gp: "getPlayer (nick (objs g p)) (hostname (objs g p)) g = None"
    by (cases "getPlayer (nick (objs g p)) (hostname (objs g p)) g = None")
       (simp_all add: addPlayer_def)
  have "\<exists>J. (\<exists>k<length (ledger J). e_player (ledger J ! k) = p) \<and> (g' = J \<or> nextRound J = Ok g')"
  proof (cases ?f)
    case None
    define J where "J = say (SayJoined (nick (objs g p)))
        (g\<lparr>ledger := ledger g @ [\<lparr>e_nick = nick (objs g p), e_hostname = hostname (objs g p),
                                 e_player = p, e_points = 0\<rparr>],
           idleCounts := (idleCounts g)(nick (objs g p) := Num 0),
           players := players g @ [p]\<rparr>)"
    have l: "length (ledger g) < length (ledger J)" "e_player (ledger J ! length (ledger g)) = p"
      by (simp_all add: J_def say_def)
    from gp None have "addPlayer p g =
        (if state J = WAITING \<and> length (players J) \<ge> 3
         then (case nextRound J of Ok g \<Rightarrow> (Some p, Ok g) | other \<Rightarrow> (None, other))
         else (Some p, Ok J))"
      by (simp add: addPlayer_def Let_def J_def say_def)
    with assms have "g' = J \<or> nextRound J = Ok g'"
      by (auto split: if_splits outcome.splits)
    with l show ?thesis by blast
  next
    case (Some k)
    from find_upt_Some [OF Some] have k: "k < length (ledger g)" by simp
    from assms gp Some have nb: "\<not> js_ge (idleCounts g (nick (objs g p))) (idleLimit g)"
      by (cases "js_ge (idleCounts g (nick (objs g p))) (idleLimit g)")
         (simp_all add: addPlayer_def)
    define J where "J = say (SayJoined (nick (objs g p)))
        ((upd p (\<lambda>pl. pl\<lparr>points := e_points (ledger g ! k)\<rparr>)
            (g\<lparr>ledger := (ledger g)[k := (ledger g ! k)\<lparr>e_player := p\<rparr>]\<rparr>))
           \<lparr>players := players g @ [p]\<rparr>)"
    have l: "k < length (ledger J)" "e_player (ledger J ! k) = p"
      using k by (simp_all add: J_def say_def upd_def)
    from gp Some nb have "addPlayer p g =
        (if state J = WAITING \<and> length (players J) \<ge> 3
         then (case nextRound J of Ok g \<Rightarrow> (Some p, Ok g) | other \<Rightarrow> (None, other))
         else (Some p, Ok J))"
      by (simp add: addPlayer_def Let_def J_def say_def upd_def)
    with assms have "g' = J \<or> nextRound J = Ok g'"
      by (auto split: if_splits outcome.splits)
    with l show ?thesis by blast
  qed
  then obtain J k where J: "k < length (ledger J)" "e_player (ledger J ! k) = p"
    "g' = J \<or> nextRound J = Ok g'" by blast
  have "ledger g' = ledger J"
  proof (cases "g' = J")
    case True then show ?thesis by simp
  next
    case False
    with J(3) have "nextRound J = Ok g'" by simp
    from nextRound_frame [OF this] show ?thesis by simp
  qed
  with J(1,2) have "k < length (ledger g')" "e_player (ledger g' ! k) = p" by simp_all
  then show ?thesis by (rule find_upt_exists)
qed

text \<open>
  The call that the statement on \<^verbatim>\<open>selectWinner\<close> leaves out. The second player of \<^verbatim>\<open>judging\<close> has a card on
  the table, leaves and joins again as a new player object, and the judge picks that
  card: the state becomes \<^verbatim>\<open>RoundEnd\<close>, the old object gets the point, and the lookup of
  its ledger entry, which now refers to the new object, makes the call throw.
\<close>

lemma selectWinner_after_rejoin:
  "map_option state (outcomeGame
      (andThen (removePlayer 4 1 False (upd 5 (\<lambda>_. Player ''bob'' ''u'' ''h'') judging))
         (\<lambda>g. andThen (snd (addPlayer 5 g)) (selectWinner 4 (WordKey ''0'') (Some 0)))))
     = Some ROUND_END
   \<and> returned
      (andThen (removePlayer 4 1 False (upd 5 (\<lambda>_. Player ''bob'' ''u'' ''h'') judging))
         (\<lambda>g. andThen (snd (addPlayer 5 g)) (selectWinner 4 (WordKey ''0'') (Some 0))))
     = None
   \<and> map_option players (returned
      (andThen (removePlayer 4 1 False (upd 5 (\<lambda>_. Player ''bob'' ''u'' ''h'') judging))
         (\<lambda>g. snd (addPlayer 5 g))))
     = Some [0, 2, 5]"
  by code_simp

subsection \<open>A judge who lets the selection time out\<close>

text \<open>
  C10 at a judge who has not played a card since joining. Player 0, \<open>ann\<close>, is the judge
  of \<^verbatim>\<open>judgeTimedOut\<close>; the constructor of players sets no \<^verbatim>\<open>inactiveRounds\<close>, so the counter
  is \<^verbatim>\<open>undefined\<close>. The time is up, \<^verbatim>\<open>winnerTimerCheck\<close> increments the counter, which makes it
  \<^verbatim>\<open>NaN\<close>, and picks a winner; the cleanup that follows compares \<^verbatim>\<open>NaN >= 1\<close>, which is false.
  The call returns with the judge still on the roster of the new round and the idle count
  under the nick \<open>ann\<close> unchanged.
\<close>

theorem winnerTimerCheck_keeps_new_judge:
  "state judgeTimedOut = PLAYED \<and> czar judgeTimedOut = Some 0
   \<and> nick (objs judgeTimedOut 0) = ''ann''
   \<and> counterOf 0 judgeTimedOut = Undefined
   \<and> idleCountOf ''ann'' judgeTimedOut = Num 0
   \<and> timeIsUp judgeTimedOut
   \<and> map_option players (returned (winnerTimerCheck 5 judgeTimedOut)) = Some [0, 1, 2]
   \<and> map_option state (returned (winnerTimerCheck 5 judgeTimedOut)) = Some PLAYABLE
   \<and> map_option round (returned (winnerTimerCheck 5 judgeTimedOut)) = Some (round judgeTimedOut + 1)
   \<and> map_option (counterOf 0) (returned (winnerTimerCheck 5 judgeTimedOut)) = Some NaN
   \<and> map_option (idleCountOf ''ann'') (returned (winnerTimerCheck 5 judgeTimedOut)) = Some (Num 0)"
  by code_simp

end
